theory Spec2Isabelle
  imports Main
begin

section \<open>Data exchanged with the provider\<close>

text \<open>
  The scripts \<^verbatim>\<open>src/p1.js\<close> and \<^verbatim>\<open>src/unnamed/part_000\<close> read a handful of fields
  from the objects the SDK resolves its commands with. Every field is optional in the
  SDK's output shapes, so each is an \<open>option\<close>: \<open>None\<close> is JavaScript's
  \<^verbatim>\<open>undefined\<close>. Two fields are renamed because a record field name is a constant:
  \<open>StateName\<close> is \<^verbatim>\<open>instance.State.Name\<close> and \<open>ResInstances\<close> is
  \<^verbatim>\<open>reservation.Instances\<close>.
\<close>

record instance_state =
  StateName :: "string option"

record ec2_instance =
  InstanceId :: "string option"
  State :: "instance_state option"

record reservation =
  ResInstances :: "ec2_instance list option"

record bucket =
  Name :: "string option"

record s3object =
  Key :: "string option"

record message_attribute =
  DataType :: "string option"
  StringValue :: "string option"

record message =
  MessageAttributes :: "(string \<times> message_attribute) list option"
  Body :: "string option"
  ReceiptHandle :: "string option"

record response =
  Instances :: "ec2_instance list option"
  QueueUrl :: "string option"
  Reservations :: "reservation list option"
  Buckets :: "bucket list option"
  QueueUrls :: "string list option"
  Attributes :: "(string \<times> string) list option"
  Messages :: "message list option"
  Contents :: "s3object list option"
  IsTruncated :: "bool option"
  NextContinuationToken :: "string option"

text \<open>The commands the scripts construct, with the parameters they pass.\<close>

datatype call =
    RunInstancesCommand string string nat nat
  | CreateBucketCommand string
  | CreateQueueCommand string
  | DescribeInstancesCommand
  | ListBucketsCommand
  | ListQueuesCommand
  | PutObjectCommand string string string
  | SendMessageCommand "string option" string "(string \<times> message_attribute) list"
  | GetQueueAttributesCommand "string option" "string list"
  | ReceiveMessageCommand "string option" nat "string list"
  | DeleteMessageCommand "string option" "string option"
  | ListObjectsV2Command string "string option"
  | DeleteObjectCommand string "string option"
  | TerminateInstancesCommand "string option list"
  | DeleteBucketCommand string
  | DeleteQueueCommand "string option"

text \<open>A \<^verbatim>\<open>client.send(command)\<close> promise either resolves with a response or rejects.\<close>

datatype reply = Resolves response | Rejects string

datatype error = Rejected string | TypeError

text \<open>What a run does that can be observed from outside, in the order it happens.\<close>

datatype event =
    Call call reply
  | Log string
  | LogError string error
  | Sleep nat

text \<open>
  The environment: the provider answers a command as a function of the commands and
  replies so far (any deterministic sequence of responses is such a function), and
  \<open>clock\<close> is what \<^verbatim>\<open>Date.now()\<close> reads. Region and credentials configure the
  three clients and so are part of \<open>provider\<close>. In \<^verbatim>\<open>src/unnamed/part_000\<close> the name
  \<^verbatim>\<open>credentials\<close> is used but its import is commented out; the credentials are a
  parameter of the environment for both scripts.
\<close>

record env =
  provider :: "(call \<times> reply) list \<Rightarrow> call \<Rightarrow> reply"
  clock :: "(call \<times> reply) list \<Rightarrow> nat"

fun calls_of :: "event list \<Rightarrow> (call \<times> reply) list" where
  "calls_of [] = []"
| "calls_of (Call c r # es) = (c, r) # calls_of es"
| "calls_of (Log s # es) = calls_of es"
| "calls_of (LogError s e # es) = calls_of es"
| "calls_of (Sleep n # es) = calls_of es"

section \<open>Asynchronous computations\<close>

text \<open>
  An \<^verbatim>\<open>async\<close> function takes the events so far and gives back \<open>None\<close> when it
  never settles (the loop ran out of fuel), or its outcome (\<open>Inl\<close> a thrown error,
  \<open>Inr\<close> the returned value) with the events extended.
\<close>

type_synonym 'a io = "event list \<Rightarrow> ((error + 'a) \<times> event list) option"

definition return_io :: "'a \<Rightarrow> 'a io" where
  "return_io x = (\<lambda>h. Some (Inr x, h))"

definition throw_io :: "error \<Rightarrow> 'a io" where
  "throw_io e = (\<lambda>h. Some (Inl e, h))"

definition bind_io :: "'a io \<Rightarrow> ('a \<Rightarrow> 'b io) \<Rightarrow> 'b io" where
  "bind_io m f = (\<lambda>h. case m h of
      None \<Rightarrow> None
    | Some (Inl e, h') \<Rightarrow> Some (Inl e, h')
    | Some (Inr x, h') \<Rightarrow> f x h')"

definition then_io :: "unit io \<Rightarrow> 'b io \<Rightarrow> 'b io" where
  "then_io m k = bind_io m (\<lambda>_. k)"

definition console_log :: "string \<Rightarrow> unit io" where
  "console_log s = (\<lambda>h. Some (Inr (), h @ [Log s]))"

definition console_error :: "string \<Rightarrow> error \<Rightarrow> unit io" where
  "console_error s e = (\<lambda>h. Some (Inr (), h @ [LogError s e]))"

definition sleep :: "nat \<Rightarrow> unit io" where
  "sleep ms = (\<lambda>h. Some (Inr (), h @ [Sleep ms]))"

definition send :: "env \<Rightarrow> call \<Rightarrow> response io" where
  "send env c = (\<lambda>h. case provider env (calls_of h) c of
      Resolves r \<Rightarrow> Some (Inr r, h @ [Call c (Resolves r)])
    | Rejects e \<Rightarrow> Some (Inl (Rejected e), h @ [Call c (Rejects e)]))"

definition Date_now :: "env \<Rightarrow> nat io" where
  "Date_now env = (\<lambda>h. Some (Inr (clock env (calls_of h)), h))"

text \<open>\<^verbatim>\<open>try { body } catch (error) { handler(error) }\<close>\<close>

definition try_catch :: "unit io \<Rightarrow> (error \<Rightarrow> unit io) \<Rightarrow> unit io" where
  "try_catch body handler = (\<lambda>h. case body h of
      None \<Rightarrow> None
    | Some (Inl e, h') \<Rightarrow> handler e h'
    | Some (Inr u, h') \<Rightarrow> Some (Inr u, h'))"

text \<open>\<^verbatim>\<open>xs.forEach(f)\<close> and \<^verbatim>\<open>for (const x of xs)\<close> on an array.\<close>

fun forEach :: "'a list \<Rightarrow> ('a \<Rightarrow> unit io) \<Rightarrow> unit io" where
  "forEach [] f = return_io ()"
| "forEach (x # xs) f = then_io (f x) (forEach xs f)"

text \<open>\<^verbatim>\<open>xs.forEach(f)\<close> where \<open>xs\<close> may be undefined: a TypeError then.\<close>

definition forEach_strict :: "'a list option \<Rightarrow> ('a \<Rightarrow> unit io) \<Rightarrow> unit io" where
  "forEach_strict xs f = (case xs of None \<Rightarrow> throw_io TypeError | Some l \<Rightarrow> forEach l f)"

text \<open>\<^verbatim>\<open>xs?.forEach(f)\<close>: nothing happens when \<open>xs\<close> is undefined.\<close>

definition forEach_optional :: "'a list option \<Rightarrow> ('a \<Rightarrow> unit io) \<Rightarrow> unit io" where
  "forEach_optional xs f = (case xs of None \<Rightarrow> return_io () | Some l \<Rightarrow> forEach l f)"

text \<open>\<^verbatim>\<open>x.field\<close> where \<open>x\<close> may be undefined: a TypeError then.\<close>

definition member_of :: "'a option \<Rightarrow> 'a io" where
  "member_of x = (case x of None \<Rightarrow> throw_io TypeError | Some v \<Rightarrow> return_io v)"

text \<open>\<^verbatim>\<open>xs[0]\<close> read for a member: undefined \<open>xs\<close> and an empty array both throw.\<close>

definition index0 :: "'a list option \<Rightarrow> 'a io" where
  "index0 xs = (case xs of
      None \<Rightarrow> throw_io TypeError
    | Some [] \<Rightarrow> throw_io TypeError
    | Some (x # _) \<Rightarrow> return_io x)"

text \<open>A value inside a template literal: \<^verbatim>\<open>undefined\<close> prints as its name.\<close>

definition js_string :: "string option \<Rightarrow> string" where
  "js_string x = (case x of None \<Rightarrow> ''undefined'' | Some s \<Rightarrow> s)"

definition digit_char :: "nat \<Rightarrow> char" where
  "digit_char d = char_of (48 + d)"

fun show_nat :: "nat \<Rightarrow> string" where
  "show_nat n = (if n < 10 then [digit_char n] else show_nat (n div 10) @ [digit_char (n mod 10)])"

text \<open>The loop variable \<^verbatim>\<open>isTruncated\<close> holds \<^verbatim>\<open>true\<close>, \<^verbatim>\<open>false\<close> or undefined.\<close>

definition truthy :: "bool option \<Rightarrow> bool" where
  "truthy b = (b = Some True)"

section \<open>The routines shared by both scripts\<close>

definition createResources :: "env \<Rightarrow> string \<Rightarrow> (string option \<times> string \<times> string option) io" where
  "createResources env imageId =
    then_io (console_log ''Creating resources...'')
    (bind_io (send env (RunInstancesCommand imageId ''t2.micro'' 1 1)) (\<lambda>ec2Response.
     bind_io (index0 (Instances ec2Response)) (\<lambda>inst.
     let instanceId = InstanceId inst in
     then_io (console_log (''EC2 instance created with ID: '' @ js_string instanceId))
    (bind_io (Date_now env) (\<lambda>t1.
     let bucketName = ''my-test-bucket-'' @ show_nat t1 in
     bind_io (send env (CreateBucketCommand bucketName)) (\<lambda>_.
     then_io (console_log (''S3 bucket created: '' @ bucketName))
    (bind_io (Date_now env) (\<lambda>t2.
     let queueName = ''my-test-queue-'' @ show_nat t2 in
     bind_io (send env (CreateQueueCommand queueName)) (\<lambda>sqsResponse.
     let queueUrl = QueueUrl sqsResponse in
     then_io (console_log (''SQS queue created: '' @ js_string queueUrl))
    (then_io (console_log ''Resources created, waiting for 1 minute...'')
    (then_io (sleep 60000)
    (return_io (instanceId, bucketName, queueUrl)))))))))))))"

definition uploadFileToS3 :: "env \<Rightarrow> string \<Rightarrow> unit io" where
  "uploadFileToS3 env bucketName =
    then_io (console_log ''Uploading file to S3...'')
    (bind_io (send env (PutObjectCommand bucketName ''CSE546test.txt'' '''')) (\<lambda>_.
     console_log ''File uploaded to S3''))"

definition sendMessageToSQS :: "env \<Rightarrow> string option \<Rightarrow> unit io" where
  "sendMessageToSQS env queueUrl =
    then_io (console_log ''Sending message to SQS...'')
    (bind_io (send env (SendMessageCommand queueUrl ''This is a test message''
        [(''Title'', \<lparr>DataType = Some ''String'', StringValue = Some ''test message''\<rparr>)])) (\<lambda>_.
     console_log ''Message sent to SQS''))"

definition checkSQSMessages :: "env \<Rightarrow> string option \<Rightarrow> unit io" where
  "checkSQSMessages env queueUrl =
    bind_io (send env (GetQueueAttributesCommand queueUrl [''ApproximateNumberOfMessages''])) (\<lambda>response.
    bind_io (member_of (Attributes response)) (\<lambda>attrs.
    console_log (''Number of messages in SQS queue: ''
       @ js_string (map_of attrs ''ApproximateNumberOfMessages''))))"

definition receiveSQSMessage :: "env \<Rightarrow> string option \<Rightarrow> unit io" where
  "receiveSQSMessage env queueUrl =
    then_io (console_log ''Receiving message from SQS...'')
    (bind_io (send env (ReceiveMessageCommand queueUrl 1 [''All''])) (\<lambda>response.
     case Messages response of
       Some (msg # rest) \<Rightarrow>
         bind_io (member_of (MessageAttributes msg)) (\<lambda>attrs.
         bind_io (member_of (map_of attrs ''Title'')) (\<lambda>title.
         then_io (console_log (''Message title: '' @ js_string (StringValue title)))
        (then_io (console_log (''Message body: '' @ js_string (Body msg)))
        (bind_io (send env (DeleteMessageCommand queueUrl (ReceiptHandle msg))) (\<lambda>_.
         return_io ())))))
     | _ \<Rightarrow> console_log ''No messages in the queue''))"

text \<open>The body of the \<^verbatim>\<open>while\<close> loop's \<^verbatim>\<open>if (listResponse.Contents)\<close>.\<close>

definition deleteContents :: "env \<Rightarrow> string \<Rightarrow> s3object list option \<Rightarrow> unit io" where
  "deleteContents env bucketName contents = (case contents of
      None \<Rightarrow> return_io ()
    | Some objects \<Rightarrow> forEach objects (\<lambda>object.
        bind_io (send env (DeleteObjectCommand bucketName (Key object))) (\<lambda>_.
        console_log (''Deleted object: '' @ js_string (Key object)))))"

text \<open>
  The \<^verbatim>\<open>while (isTruncated)\<close> loop of \<^verbatim>\<open>deleteResources\<close>, from the values of its two
  variables. The first argument bounds the iterations still allowed.
\<close>

fun purgeLoop :: "nat \<Rightarrow> env \<Rightarrow> string \<Rightarrow> bool option \<Rightarrow> string option \<Rightarrow> unit io" where
  "purgeLoop 0 env bucketName isTruncated continuationToken =
    (if \<not> truthy isTruncated then return_io () else (\<lambda>h. None))"
| "purgeLoop (Suc fuel) env bucketName isTruncated continuationToken =
    (if \<not> truthy isTruncated then return_io ()
     else
       bind_io (send env (ListObjectsV2Command bucketName continuationToken)) (\<lambda>listResponse.
       then_io (deleteContents env bucketName (Contents listResponse))
        (purgeLoop fuel env bucketName (IsTruncated listResponse)
           (NextContinuationToken listResponse))))"

definition deleteResources :: "nat \<Rightarrow> env \<Rightarrow> string option \<Rightarrow> string \<Rightarrow> string option \<Rightarrow> unit io" where
  "deleteResources fuel env instanceId bucketName queueUrl =
    then_io (console_log ''Deleting resources...'')
    (then_io (purgeLoop fuel env bucketName (Some True) None)
    (bind_io (send env (TerminateInstancesCommand [instanceId])) (\<lambda>_.
     then_io (console_log (''EC2 instance '' @ js_string instanceId @ '' termination initiated''))
    (bind_io (send env (DeleteBucketCommand bucketName)) (\<lambda>_.
     then_io (console_log (''S3 bucket '' @ bucketName @ '' deleted''))
    (bind_io (send env (DeleteQueueCommand queueUrl)) (\<lambda>_.
     console_log (''SQS queue '' @ js_string queueUrl @ '' deleted''))))))))"

section \<open>The routines that differ between the scripts\<close>

text \<open>\<^verbatim>\<open>listResources\<close> of \<^verbatim>\<open>src/p1.js\<close>: optional chaining, running instances only.\<close>

definition listResources_p1 :: "env \<Rightarrow> unit io" where
  "listResources_p1 env =
    then_io (console_log ''Listing resources...'')
    (bind_io (send env DescribeInstancesCommand) (\<lambda>ec2Response.
     then_io (console_log ''EC2 Instances:'')
    (then_io (forEach_optional (Reservations ec2Response) (\<lambda>reservation.
       forEach_strict (ResInstances reservation) (\<lambda>inst.
         bind_io (member_of (State inst)) (\<lambda>state.
         if StateName state = Some ''running''
         then console_log (''  '' @ js_string (InstanceId inst))
         else return_io ()))))
    (bind_io (send env ListBucketsCommand) (\<lambda>s3Response.
     then_io (console_log ''S3 Buckets:'')
    (then_io (forEach_optional (Buckets s3Response) (\<lambda>bucket.
       console_log (''  '' @ js_string (Name bucket))))
    (bind_io (send env ListQueuesCommand) (\<lambda>sqsResponse.
     then_io (console_log ''SQS Queues:'')
    (forEach_optional (QueueUrls sqsResponse) (\<lambda>queueUrl.
       console_log (''  '' @ queueUrl)))))))))))"

text \<open>\<^verbatim>\<open>listResources\<close> of \<^verbatim>\<open>src/unnamed/part_000\<close>: no optional chaining, every instance.\<close>

definition listResources_part_000 :: "env \<Rightarrow> unit io" where
  "listResources_part_000 env =
    then_io (console_log ''Listing resources...'')
    (bind_io (send env DescribeInstancesCommand) (\<lambda>ec2Response.
     then_io (console_log ''EC2 Instances:'')
    (then_io (forEach_strict (Reservations ec2Response) (\<lambda>reservation.
       forEach_strict (ResInstances reservation) (\<lambda>inst.
         console_log (''  '' @ js_string (InstanceId inst)))))
    (bind_io (send env ListBucketsCommand) (\<lambda>s3Response.
     then_io (console_log ''S3 Buckets:'')
    (then_io (forEach_strict (Buckets s3Response) (\<lambda>bucket.
       console_log (''  '' @ js_string (Name bucket))))
    (bind_io (send env ListQueuesCommand) (\<lambda>sqsResponse.
     then_io (console_log ''SQS Queues:'')
    (forEach_strict (QueueUrls sqsResponse) (\<lambda>queueUrl.
       console_log (''  '' @ queueUrl)))))))))))"

text \<open>
  The body of \<^verbatim>\<open>main\<close>'s \<^verbatim>\<open>try\<close> block. The two scripts differ in the image
  identifier (a parameter here), in \<^verbatim>\<open>listResources\<close> and in the last pause.
\<close>

definition main_body :: "(env \<Rightarrow> unit io) \<Rightarrow> string \<Rightarrow> nat \<Rightarrow> nat \<Rightarrow> env \<Rightarrow> string \<Rightarrow> unit io" where
  "main_body listResources waitMsg waitMs fuel env imageId =
    bind_io (createResources env imageId) (\<lambda>(instanceId, bucketName, queueUrl).
    then_io (listResources env)
   (then_io (uploadFileToS3 env bucketName)
   (then_io (sendMessageToSQS env queueUrl)
   (then_io (checkSQSMessages env queueUrl)
   (then_io (receiveSQSMessage env queueUrl)
   (then_io (checkSQSMessages env queueUrl)
   (then_io (console_log ''Waiting for 10 seconds...'')
   (then_io (sleep 10000)
   (then_io (deleteResources fuel env instanceId bucketName queueUrl)
   (then_io (console_log waitMsg)
   (then_io (sleep waitMs)
   (listResources env))))))))))))"

definition main_p1 :: "nat \<Rightarrow> env \<Rightarrow> string \<Rightarrow> unit io" where
  "main_p1 fuel env imageId =
    try_catch (main_body listResources_p1 ''Waiting for 1 minute...'' 60000 fuel env imageId)
      (\<lambda>error. console_error ''An error occurred:'' error)"

definition main_part_000 :: "nat \<Rightarrow> env \<Rightarrow> string \<Rightarrow> unit io" where
  "main_part_000 fuel env imageId =
    try_catch (main_body listResources_part_000 ''Waiting for 20 seconds...'' 20000 fuel env imageId)
      (\<lambda>error. console_error ''An error occurred:'' error)"

definition ImageId_p1 :: string where
  "ImageId_p1 = ''ami-0d53d72369335a9d6''"


section \<open>Vocabulary of the properties\<close>

text \<open>The message carries \<^verbatim>\<open>MessageAttributes.Title\<close>.\<close>

definition has_Title :: "message \<Rightarrow> bool" where
  "has_Title msg = (case MessageAttributes msg of
      None \<Rightarrow> False
    | Some attrs \<Rightarrow> map_of attrs ''Title'' \<noteq> None)"

text \<open>The first message of what the receive call issued after the events \<open>h\<close> returns.\<close>

definition first_received :: "env \<Rightarrow> string option \<Rightarrow> event list \<Rightarrow> message option" where
  "first_received env queueUrl h =
    (case provider env (calls_of h) (ReceiveMessageCommand queueUrl 1 [''All'']) of
       Resolves response \<Rightarrow> (case Messages response of Some (msg # rest) \<Rightarrow> Some msg | _ \<Rightarrow> None)
     | Rejects e \<Rightarrow> None)"

text \<open>The listing calls among the events, each with its reply, in order.\<close>

fun listings :: "event list \<Rightarrow> (call \<times> reply) list" where
  "listings [] = []"
| "listings (Call (ListObjectsV2Command b tok) r # es) = (ListObjectsV2Command b tok, r) # listings es"
| "listings (e # es) = listings es"

text \<open>A chain of listing calls on bucket \<open>b\<close> that starts with token \<open>tok\<close>: every call but the last
  resolved with a truthy truncation flag and is followed by a call carrying its
  \<^verbatim>\<open>NextContinuationToken\<close>; the last call resolved with a flag that is not truthy.\<close>

fun threaded :: "string \<Rightarrow> string option \<Rightarrow> (call \<times> reply) list \<Rightarrow> bool" where
  "threaded b tok [] = False"
| "threaded b tok [(c, r)] = (c = ListObjectsV2Command b tok
     \<and> (case r of Resolves resp \<Rightarrow> \<not> truthy (IsTruncated resp) | Rejects e \<Rightarrow> False))"
| "threaded b tok ((c, r) # x # xs) = (c = ListObjectsV2Command b tok
     \<and> (case r of Resolves resp \<Rightarrow> truthy (IsTruncated resp)
           \<and> threaded b (NextContinuationToken resp) (x # xs) | Rejects e \<Rightarrow> False))"

text \<open>The events the purge loop can produce on bucket \<open>b\<close>.\<close>

fun purge_event :: "string \<Rightarrow> event \<Rightarrow> bool" where
  "purge_event b (Call (ListObjectsV2Command b' tok) r) = (b' = b)"
| "purge_event b (Call (DeleteObjectCommand b' k) r) = (b' = b)"
| "purge_event b (Log s) = True"
| "purge_event b e = False"

text \<open>For every key of every page listed in \<open>t\<close>, a delete call for that key is in \<open>t\<close>.\<close>

definition pages_deleted :: "string \<Rightarrow> event list \<Rightarrow> bool" where
  "pages_deleted b t \<longleftrightarrow> (\<forall>tok resp objs obj.
      Call (ListObjectsV2Command b tok) (Resolves resp) \<in> set t \<longrightarrow> Contents resp = Some objs
        \<longrightarrow> obj \<in> set objs \<longrightarrow> (\<exists>rp. Call (DeleteObjectCommand b (Key obj)) rp \<in> set t))"

text \<open>The event is a bucket deletion call.\<close>

fun is_DeleteBucket :: "event \<Rightarrow> bool" where
  "is_DeleteBucket (Call (DeleteBucketCommand b) r) = True"
| "is_DeleteBucket e = False"

text \<open>The event is a provider call that was rejected.\<close>

fun is_rejection :: "event \<Rightarrow> bool" where
  "is_rejection (Call c (Rejects e)) = True"
| "is_rejection e = False"

text \<open>The event is a line written by \<^verbatim>\<open>console.error\<close>.\<close>

fun is_LogError :: "event \<Rightarrow> bool" where
  "is_LogError (LogError s e) = True"
| "is_LogError e = False"

text \<open>No rejected call and no error line among the events.\<close>

definition quiet :: "event list \<Rightarrow> bool" where
  "quiet t \<longleftrightarrow> (\<forall>e \<in> set t. \<not> is_rejection e \<and> \<not> is_LogError e)"

text \<open>Every run of the computation either has no rejected call, and then does not throw a
  rejection, or its last event is the one rejected call and it throws that rejection.\<close>

definition surfaces :: "'a io \<Rightarrow> bool" where
  "surfaces m \<longleftrightarrow> (\<forall>h res h'. m h = Some (res, h') \<longrightarrow>
     (\<exists>t. h' = h @ t \<and> (quiet t \<and> (\<forall>e. res \<noteq> Inl (Rejected e)) \<or> (\<exists>pre c e. t = pre @ [Call c (Rejects e)] \<and> quiet pre
                                     \<and> res = Inl (Rejected e)))))"

text \<open>A run with the log lines and the replies left out: the provider calls and the pauses.\<close>

datatype step = Request call | Pause nat



text \<open>Started after the same provider calls, the two computations both never settle, or both
  settle with the same outcome after the same provider calls and replies.\<close>

definition same_calls :: "'a io \<Rightarrow> 'a io \<Rightarrow> bool" where
  "same_calls m1 m2 \<longleftrightarrow> (\<forall>h1 h2. calls_of h1 = calls_of h2 \<longrightarrow>
     (case (m1 h1, m2 h2) of
        (None, None) \<Rightarrow> True
      | (Some (r1, h1'), Some (r2, h2')) \<Rightarrow> r1 = r2 \<and> calls_of h1' = calls_of h2'
      | _ \<Rightarrow> False))"

text \<open>The computation always settles with outcome \<open>r\<close> and issues no provider call.\<close>

definition callfree :: "'a io \<Rightarrow> (error + 'a) \<Rightarrow> bool" where
  "callfree m r \<longleftrightarrow> (\<forall>h. \<exists>t. m h = Some (r, h @ t) \<and> calls_of t = [])"

text \<open>Every instance listing carries \<^verbatim>\<open>Reservations\<close> with a \<^verbatim>\<open>State\<close> on each instance, every
  bucket listing carries \<^verbatim>\<open>Buckets\<close> and every queue listing carries \<^verbatim>\<open>QueueUrls\<close>.\<close>

definition listings_complete :: "env \<Rightarrow> bool" where
  "listings_complete env \<longleftrightarrow> (\<forall>cs r.
     (provider env cs DescribeInstancesCommand = Resolves r \<longrightarrow>
        (\<exists>rs. Reservations r = Some rs
           \<and> (\<forall>res \<in> set rs. \<forall>insts. ResInstances res = Some insts \<longrightarrow>
                 (\<forall>i \<in> set insts. State i \<noteq> None))))
   \<and> (provider env cs ListBucketsCommand = Resolves r \<longrightarrow> Buckets r \<noteq> None)
   \<and> (provider env cs ListQueuesCommand = Resolves r \<longrightarrow> QueueUrls r \<noteq> None))"




text \<open>The object listings cannot stay truncated for ever. Some natural number, given by the
  provider calls made so far and a continuation token, gets smaller from each listing call
  that resolves with a truthy truncation flag to every later moment, taken there with the
  \<^verbatim>\<open>NextContinuationToken\<close> of that reply.\<close>

definition pages_run_out :: "env \<Rightarrow> bool" where
  "pages_run_out env \<longleftrightarrow> (\<exists>rank :: (call \<times> reply) list \<Rightarrow> string option \<Rightarrow> nat.
     \<forall>cs b tok resp later. provider env cs (ListObjectsV2Command b tok) = Resolves resp
       \<longrightarrow> truthy (IsTruncated resp)
       \<longrightarrow> rank (cs @ (ListObjectsV2Command b tok, Resolves resp) # later) (NextContinuationToken resp)
             < rank cs tok)"

section \<open>Sample responses, environments and runs\<close>

definition empty_response :: response where
  "empty_response = \<lparr>Instances = None, QueueUrl = None, Reservations = None, Buckets = None,
     QueueUrls = None, Attributes = None, Messages = None, Contents = None,
     IsTruncated = None, NextContinuationToken = None\<rparr>"

text \<open>A provider that resolves every command with an object that has none of the fields.\<close>

definition blank_env :: env where
  "blank_env = \<lparr>provider = (\<lambda>cs c. Resolves empty_response), clock = (\<lambda>cs. 0)\<rparr>"

text \<open>The message \<^verbatim>\<open>sendMessageToSQS\<close> sends, as a receive call returns it.\<close>

definition demo_message :: message where
  "demo_message = \<lparr>MessageAttributes = Some [(''Title'',
       \<lparr>DataType = Some ''String'', StringValue = Some ''test message''\<rparr>)],
     Body = Some ''This is a test message'', ReceiptHandle = Some ''rh-1''\<rparr>"

text \<open>A message without message attributes.\<close>

definition untitled_message :: message where
  "untitled_message = \<lparr>MessageAttributes = None, Body = Some ''hello'',
     ReceiptHandle = Some ''rh-2''\<rparr>"

text \<open>Two pages of a listing: the first is truncated, the second is the last.\<close>

definition demo_page1 :: response where
  "demo_page1 = empty_response\<lparr>Contents := Some [\<lparr>Key = Some ''k1''\<rparr>],
     IsTruncated := Some True, NextContinuationToken := Some ''t1''\<rparr>"

definition demo_page2 :: response where
  "demo_page2 = empty_response\<lparr>Contents := Some [\<lparr>Key = Some ''k2''\<rparr>],
     IsTruncated := Some False\<rparr>"

text \<open>
  A provider on which a whole run succeeds: one instance, a queue holding the message,
  and a bucket whose listing comes in two pages.
\<close>

definition demo_run :: response where
  "demo_run = empty_response\<lparr>Instances := Some [\<lparr>InstanceId = Some ''i-1'', State = None\<rparr>]\<rparr>"

definition demo_queue :: response where
  "demo_queue = empty_response\<lparr>QueueUrl := Some ''q-url''\<rparr>"

definition demo_reservations :: response where
  "demo_reservations = empty_response\<lparr>Reservations := Some [\<lparr>ResInstances = Some
        [\<lparr>InstanceId = Some ''i-1'', State = Some \<lparr>StateName = Some ''running''\<rparr>\<rparr>,
         \<lparr>InstanceId = Some ''i-0'', State = Some \<lparr>StateName = Some ''stopped''\<rparr>\<rparr>]\<rparr>]\<rparr>"

definition demo_buckets :: response where
  "demo_buckets = empty_response\<lparr>Buckets := Some [\<lparr>Name = Some ''b''\<rparr>]\<rparr>"

definition demo_queues :: response where
  "demo_queues = empty_response\<lparr>QueueUrls := Some [''q-url'']\<rparr>"

definition demo_attributes :: response where
  "demo_attributes = empty_response\<lparr>Attributes := Some [(''ApproximateNumberOfMessages'', ''1'')]\<rparr>"

definition demo_messages :: response where
  "demo_messages = empty_response\<lparr>Messages := Some [demo_message]\<rparr>"

fun demo_provider :: "(call \<times> reply) list \<Rightarrow> call \<Rightarrow> reply" where
  "demo_provider cs (RunInstancesCommand a b c d) = Resolves demo_run"
| "demo_provider cs (CreateQueueCommand n) = Resolves demo_queue"
| "demo_provider cs DescribeInstancesCommand = Resolves demo_reservations"
| "demo_provider cs ListBucketsCommand = Resolves demo_buckets"
| "demo_provider cs ListQueuesCommand = Resolves demo_queues"
| "demo_provider cs (GetQueueAttributesCommand q ns) = Resolves demo_attributes"
| "demo_provider cs (ReceiveMessageCommand q n ns) = Resolves demo_messages"
| "demo_provider cs (ListObjectsV2Command b None) = Resolves demo_page1"
| "demo_provider cs (ListObjectsV2Command b (Some t)) = Resolves demo_page2"
| "demo_provider cs c = Resolves empty_response"

definition demo_env :: env where
  "demo_env = \<lparr>provider = demo_provider, clock = (\<lambda>cs. 7)\<rparr>"

text \<open>What the purge loop does on a bucket with this provider.\<close>

definition demo_purge_trace :: "string \<Rightarrow> event list" where
  "demo_purge_trace b =
     [Call (ListObjectsV2Command b None) (Resolves demo_page1),
      Call (DeleteObjectCommand b (Some ''k1'')) (Resolves empty_response),
      Log ''Deleted object: k1'',
      Call (ListObjectsV2Command b (Some ''t1'')) (Resolves demo_page2),
      Call (DeleteObjectCommand b (Some ''k2'')) (Resolves empty_response),
      Log ''Deleted object: k2'']"

text \<open>The only page of the listing of an empty bucket, and a provider that always gives it.\<close>

definition empty_page :: response where
  "empty_page = empty_response\<lparr>IsTruncated := Some False\<rparr>"

definition empty_bucket_env :: env where
  "empty_bucket_env = \<lparr>provider = (\<lambda>cs c. Resolves empty_page), clock = (\<lambda>cs. 0)\<rparr>"

text \<open>A provider whose receive call returns the message without attributes.\<close>

definition untitled_env :: env where
  "untitled_env = \<lparr>provider = (\<lambda>cs c. Resolves (empty_response\<lparr>Messages := Some [untitled_message]\<rparr>)),
     clock = (\<lambda>cs. 0)\<rparr>"

text \<open>The same provider, except that it rejects every object deletion.\<close>

fun failing_provider :: "(call \<times> reply) list \<Rightarrow> call \<Rightarrow> reply" where
  "failing_provider cs (DeleteObjectCommand b k) = Rejects ''AccessDenied''"
| "failing_provider cs c = demo_provider cs c"

text \<open>The environment of that provider.\<close>

definition failing_env :: env where
  "failing_env = \<lparr>provider = failing_provider, clock = (\<lambda>cs. 7)\<rparr>"

text \<open>What \<^verbatim>\<open>main\<close> of \<^verbatim>\<open>src/p1.js\<close> does with the demo provider before the teardown.\<close>

definition demo_setup_trace :: "event list" where
  "demo_setup_trace =
     [Log ''Creating resources...'',
      Call (RunInstancesCommand ImageId_p1 ''t2.micro'' 1 1) (Resolves demo_run),
      Log ''EC2 instance created with ID: i-1'',
      Call (CreateBucketCommand ''my-test-bucket-7'') (Resolves empty_response),
      Log ''S3 bucket created: my-test-bucket-7'',
      Call (CreateQueueCommand ''my-test-queue-7'') (Resolves demo_queue),
      Log ''SQS queue created: q-url'',
      Log ''Resources created, waiting for 1 minute...'',
      Sleep 60000,
      Log ''Listing resources...'',
      Call DescribeInstancesCommand (Resolves demo_reservations),
      Log ''EC2 Instances:'',
      Log ''  i-1'',
      Call ListBucketsCommand (Resolves demo_buckets),
      Log ''S3 Buckets:'',
      Log ''  b'',
      Call ListQueuesCommand (Resolves demo_queues),
      Log ''SQS Queues:'',
      Log ''  q-url'',
      Log ''Uploading file to S3...'',
      Call (PutObjectCommand ''my-test-bucket-7'' ''CSE546test.txt'' '''') (Resolves empty_response),
      Log ''File uploaded to S3'',
      Log ''Sending message to SQS...'',
      Call (SendMessageCommand (Some ''q-url'') ''This is a test message''
        [(''Title'', \<lparr>DataType = Some ''String'', StringValue = Some ''test message''\<rparr>)])
        (Resolves empty_response),
      Log ''Message sent to SQS'',
      Call (GetQueueAttributesCommand (Some ''q-url'') [''ApproximateNumberOfMessages''])
        (Resolves demo_attributes),
      Log ''Number of messages in SQS queue: 1'',
      Log ''Receiving message from SQS...'',
      Call (ReceiveMessageCommand (Some ''q-url'') 1 [''All'']) (Resolves demo_messages),
      Log ''Message title: test message'',
      Log ''Message body: This is a test message'',
      Call (DeleteMessageCommand (Some ''q-url'') (Some ''rh-1'')) (Resolves empty_response),
      Call (GetQueueAttributesCommand (Some ''q-url'') [''ApproximateNumberOfMessages''])
        (Resolves demo_attributes),
      Log ''Number of messages in SQS queue: 1'',
      Log ''Waiting for 10 seconds...'',
      Sleep 10000]"

text \<open>What \<^verbatim>\<open>main\<close> of \<^verbatim>\<open>src/p1.js\<close> does with the demo provider from the teardown on.\<close>

definition demo_teardown_trace :: "event list" where
  "demo_teardown_trace =
     Log ''Deleting resources...'' # demo_purge_trace ''my-test-bucket-7'' @
     [Call (TerminateInstancesCommand [Some ''i-1'']) (Resolves empty_response),
      Log ''EC2 instance i-1 termination initiated'',
      Call (DeleteBucketCommand ''my-test-bucket-7'') (Resolves empty_response),
      Log ''S3 bucket my-test-bucket-7 deleted'',
      Call (DeleteQueueCommand (Some ''q-url'')) (Resolves empty_response),
      Log ''SQS queue q-url deleted'',
      Log ''Waiting for 1 minute...'',
      Sleep 60000,
      Log ''Listing resources...'',
      Call DescribeInstancesCommand (Resolves demo_reservations),
      Log ''EC2 Instances:'',
      Log ''  i-1'',
      Call ListBucketsCommand (Resolves demo_buckets),
      Log ''S3 Buckets:'',
      Log ''  b'',
      Call ListQueuesCommand (Resolves demo_queues),
      Log ''SQS Queues:'',
      Log ''  q-url'']"

text \<open>A provider that returns an instance on creation and an object without any field otherwise.\<close>

fun bare_provider :: "(call \<times> reply) list \<Rightarrow> call \<Rightarrow> reply" where
  "bare_provider cs (RunInstancesCommand a b c d) = Resolves demo_run"
| "bare_provider cs c = Resolves empty_response"

text \<open>The environment of that provider.\<close>

definition bare_env :: env where
  "bare_env = \<lparr>provider = bare_provider, clock = (\<lambda>cs. 7)\<rparr>"

text \<open>What both scripts do with the bare provider up to the first listing call.\<close>

definition bare_prefix :: "event list" where
  "bare_prefix =
     [Log ''Creating resources...'',
      Call (RunInstancesCommand ImageId_p1 ''t2.micro'' 1 1) (Resolves demo_run),
      Log ''EC2 instance created with ID: i-1'',
      Call (CreateBucketCommand ''my-test-bucket-7'') (Resolves empty_response),
      Log ''S3 bucket created: my-test-bucket-7'',
      Call (CreateQueueCommand ''my-test-queue-7'') (Resolves empty_response),
      Log ''SQS queue created: undefined'',
      Log ''Resources created, waiting for 1 minute...'',
      Sleep 60000,
      Log ''Listing resources...'',
      Call DescribeInstancesCommand (Resolves empty_response),
      Log ''EC2 Instances:'']"




section \<open>Basic facts\<close>

lemma calls_of_append: "calls_of (xs @ ys) = calls_of xs @ calls_of ys"
  by (induction xs rule: calls_of.induct) simp_all

lemma listings_append: "listings (xs @ ys) = listings xs @ listings ys"
  by (induction xs rule: listings.induct) simp_all


lemmas io_defs = return_io_def throw_io_def bind_io_def then_io_def console_log_def
  sleep_def send_def member_of_def index0_def Date_now_def

lemma bind_io_Some:
  "bind_io m f h = Some (r, h'') \<longleftrightarrow>
     (\<exists>e. m h = Some (Inl e, h'') \<and> r = Inl e)
   \<or> (\<exists>x h'. m h = Some (Inr x, h') \<and> f x h' = Some (r, h''))"
  by (auto simp: bind_io_def split: option.splits sum.splits prod.splits)

lemma then_io_Some:
  "then_io m k h = Some (r, h'') \<longleftrightarrow>
     (\<exists>e. m h = Some (Inl e, h'') \<and> r = Inl e)
   \<or> (\<exists>h'. m h = Some (Inr (), h') \<and> k h' = Some (r, h''))"
  by (auto simp: then_io_def bind_io_Some)

lemma send_Some:
  "send env c h = Some (res, h') \<longleftrightarrow>
     (\<exists>r. provider env (calls_of h) c = Resolves r \<and> res = Inr r \<and> h' = h @ [Call c (Resolves r)])
   \<or> (\<exists>e. provider env (calls_of h) c = Rejects e \<and> res = Inl (Rejected e)
          \<and> h' = h @ [Call c (Rejects e)])"
  by (auto simp: send_def split: reply.splits)

lemma console_log_Some:
  "console_log s h = Some (res, h') \<longleftrightarrow> res = Inr () \<and> h' = h @ [Log s]"
  by (auto simp: console_log_def)












text \<open>The digits of a number are computed on demand only.\<close>

declare show_nat.simps [simp del]

lemma show_nat_7: "show_nat 7 = ''7''"
  by code_simp

lemma quiet_simps [simp]:
  "quiet []" "quiet (xs @ ys) \<longleftrightarrow> quiet xs \<and> quiet ys"
  "quiet (x # xs) \<longleftrightarrow> \<not> is_rejection x \<and> \<not> is_LogError x \<and> quiet xs"
  by (auto simp: quiet_def)

section \<open>The purge loop\<close>

lemma delete_step:
  "bind_io (send env (DeleteObjectCommand b k)) (\<lambda>_. console_log s) h = Some (res, h')
   \<Longrightarrow> (res = Inr () \<and> (\<exists>rp. h' = h @ [Call (DeleteObjectCommand b k) rp, Log s]))
     \<or> (\<exists>e. res = Inl (Rejected e) \<and> h' = h @ [Call (DeleteObjectCommand b k) (Rejects e)])"
  by (auto simp: send_def bind_io_def console_log_def split: reply.splits)

lemma forEach_delete:
  "forEach objs (\<lambda>object.
        bind_io (send env (DeleteObjectCommand b (Key object))) (\<lambda>_.
        console_log (''Deleted object: '' @ js_string (Key object)))) h = Some (res, h')
   \<Longrightarrow> \<exists>d. h' = h @ d \<and> listings d = [] \<and> (\<forall>e \<in> set d. purge_event b e)
        \<and> (res = Inr () \<longrightarrow> (\<forall>obj \<in> set objs. \<exists>rp. Call (DeleteObjectCommand b (Key obj)) rp \<in> set d))"
proof (induction objs arbitrary: h)
  case Nil
  then show ?case by (simp add: return_io_def)
next
  case (Cons obj objs)
  let ?step = "bind_io (send env (DeleteObjectCommand b (Key obj))) (\<lambda>_.
        console_log (''Deleted object: '' @ js_string (Key obj)))"
  from Cons.prems consider
      (fail) e where "?step h = Some (Inl e, h')" "res = Inl e"
    | (ok) h1 where "?step h = Some (Inr (), h1)"
        "forEach objs (\<lambda>object.
          bind_io (send env (DeleteObjectCommand b (Key object))) (\<lambda>_.
          console_log (''Deleted object: '' @ js_string (Key object)))) h1 = Some (res, h')"
    by (auto simp: then_io_Some)
  then show ?case
  proof cases
    case fail
    from delete_step [OF fail(1)] fail(2) show ?thesis by auto
  next
    case ok
    from delete_step [OF ok(1)] obtain rp where
      h1: "h1 = h @ [Call (DeleteObjectCommand b (Key obj)) rp,
                    Log (''Deleted object: '' @ js_string (Key obj))]"
      by auto
    from Cons.IH [OF ok(2)] obtain d where
      d: "h' = h1 @ d" "listings d = []" "\<forall>e \<in> set d. purge_event b e"
         "res = Inr () \<longrightarrow> (\<forall>obj \<in> set objs. \<exists>rp. Call (DeleteObjectCommand b (Key obj)) rp \<in> set d)"
      by blast
    let ?d = "[Call (DeleteObjectCommand b (Key obj)) rp,
               Log (''Deleted object: '' @ js_string (Key obj))] @ d"
    have "h' = h @ ?d" using h1 d(1) by simp
    moreover have "listings ?d = []" using d(2) by simp
    moreover have "\<forall>e \<in> set ?d. purge_event b e" using d(3) by simp
    moreover have "res = Inr () \<longrightarrow>
        (\<forall>o' \<in> set (obj # objs). \<exists>rp. Call (DeleteObjectCommand b (Key o')) rp \<in> set ?d)"
      using d(4) by auto
    ultimately show ?thesis by blast
  qed
qed

lemma deleteContents_Some:
  assumes "deleteContents env b contents h = Some (res, h')"
  shows "\<exists>d. h' = h @ d \<and> listings d = [] \<and> (\<forall>e \<in> set d. purge_event b e)
        \<and> (res = Inr () \<longrightarrow> (\<forall>objs. contents = Some objs \<longrightarrow>
              (\<forall>obj \<in> set objs. \<exists>rp. Call (DeleteObjectCommand b (Key obj)) rp \<in> set d)))"
proof (cases contents)
  case None
  with assms show ?thesis by (simp add: deleteContents_def return_io_def)
next
  case (Some objs)
  with assms forEach_delete [of objs env b h res h'] show ?thesis
    by (auto simp: deleteContents_def)
qed

lemma deleteContents_total: "\<exists>res h'. deleteContents env b contents h = Some (res, h')"
proof (cases contents)
  case None
  then show ?thesis by (simp add: deleteContents_def return_io_def)
next
  case (Some objs)
  have "\<exists>res h'. forEach objs (\<lambda>object.
        bind_io (send env (DeleteObjectCommand b (Key object))) (\<lambda>_.
        console_log (''Deleted object: '' @ js_string (Key object)))) h = Some (res, h')"
    by (induction objs arbitrary: h)
       (auto simp: return_io_def then_io_def bind_io_def send_def console_log_def
             split: reply.splits option.splits sum.splits)
  with Some show ?thesis by (simp add: deleteContents_def)
qed

lemma purgeLoop_falsy: "\<not> truthy flag \<Longrightarrow> purgeLoop fuel env b flag tok = return_io ()"
  by (cases fuel) simp_all

lemma threaded_Cons:
  "threaded b tok ((ListObjectsV2Command b tok, Resolves resp) # rest) \<longleftrightarrow>
     (if rest = [] then \<not> truthy (IsTruncated resp)
      else truthy (IsTruncated resp) \<and> threaded b (NextContinuationToken resp) rest)"
  by (cases rest) auto

lemma threaded_last:
  "threaded b tok ls \<Longrightarrow> \<exists>tok' resp. last ls = (ListObjectsV2Command b tok', Resolves resp)
       \<and> \<not> truthy (IsTruncated resp)"
  by (induction b tok ls rule: threaded.induct) (auto split: reply.splits)

lemma purgeLoop_events:
  "purgeLoop fuel env b flag tok h = Some (res, h')
   \<Longrightarrow> \<exists>t. h' = h @ t \<and> (\<forall>e \<in> set t. purge_event b e)"
proof (induction fuel arbitrary: flag tok h)
  case 0
  then show ?case by (cases "truthy flag") (simp_all add: return_io_def)
next
  case (Suc fuel)
  show ?case
  proof (cases "truthy flag")
    case False
    with Suc.prems show ?thesis by (simp add: return_io_def)
  next
    case True
    let ?c = "ListObjectsV2Command b tok"
    from Suc.prems True consider
        (rejected) e where "h' = h @ [Call ?c (Rejects e)]"
      | (listed) resp res1 h1 where
          "deleteContents env b (Contents resp) (h @ [Call ?c (Resolves resp)]) = Some (res1, h1)"
          "(res1 = Inl (projl res1) \<and> h' = h1)
           \<or> purgeLoop fuel env b (IsTruncated resp) (NextContinuationToken resp) h1 = Some (res, h')"
      by (auto simp: bind_io_Some then_io_Some send_Some)
    then show ?thesis
    proof cases
      case rejected
      then show ?thesis by simp
    next
      case listed
      from deleteContents_Some [OF listed(1)] obtain d where
        d: "h1 = (h @ [Call ?c (Resolves resp)]) @ d" "\<forall>e \<in> set d. purge_event b e"
        by blast
      from listed(2) show ?thesis
      proof
        assume "res1 = Inl (projl res1) \<and> h' = h1"
        with d have "h' = h @ (Call ?c (Resolves resp) # d)"
          "\<forall>e \<in> set (Call ?c (Resolves resp) # d). purge_event b e" by simp_all
        then show ?thesis by blast
      next
        assume "purgeLoop fuel env b (IsTruncated resp) (NextContinuationToken resp) h1 = Some (res, h')"
        from Suc.IH [OF this] obtain t where t: "h' = h1 @ t" "\<forall>e \<in> set t. purge_event b e"
          by blast
        with d have "h' = h @ (Call ?c (Resolves resp) # d @ t)"
          "\<forall>e \<in> set (Call ?c (Resolves resp) # d @ t). purge_event b e" by auto
        then show ?thesis by blast
      qed
    qed
  qed
qed

lemma purgeLoop_returns:
  "truthy flag \<Longrightarrow> purgeLoop fuel env b flag tok h = Some (Inr (), h')
   \<Longrightarrow> \<exists>t. h' = h @ t \<and> threaded b tok (listings t) \<and> pages_deleted b t"
proof (induction fuel arbitrary: flag tok h)
  case 0
  then show ?case by simp
next
  case (Suc fuel)
  let ?c = "ListObjectsV2Command b tok"
  from Suc.prems obtain resp h1 where
    resp: "provider env (calls_of h) ?c = Resolves resp"
    and del: "deleteContents env b (Contents resp) (h @ [Call ?c (Resolves resp)]) = Some (Inr (), h1)"
    and rest: "purgeLoop fuel env b (IsTruncated resp) (NextContinuationToken resp) h1 = Some (Inr (), h')"
    by (auto simp: bind_io_Some then_io_Some send_Some)
  from deleteContents_Some [OF del] obtain d where
    d: "h1 = (h @ [Call ?c (Resolves resp)]) @ d" "listings d = []"
       "\<forall>objs. Contents resp = Some objs \<longrightarrow>
          (\<forall>obj \<in> set objs. \<exists>rp. Call (DeleteObjectCommand b (Key obj)) rp \<in> set d)"
    by blast
  show ?case
  proof (cases "truthy (IsTruncated resp)")
    case False
    with rest have "h' = h1" by (simp add: purgeLoop_falsy return_io_def)
    with d(1) have h': "h' = h @ (Call ?c (Resolves resp) # d)" by simp
    have "threaded b tok (listings (Call ?c (Resolves resp) # d))"
      using False d(2) by simp
    moreover have "pages_deleted b (Call ?c (Resolves resp) # d)"
      unfolding pages_deleted_def
    proof (intro allI impI)
      fix tok' resp' objs obj
      assume a: "Call (ListObjectsV2Command b tok') (Resolves resp') \<in> set (Call ?c (Resolves resp) # d)"
        "Contents resp' = Some objs" "obj \<in> set objs"
      have "Call (ListObjectsV2Command b tok') (Resolves resp') \<notin> set d"
      proof
        assume "Call (ListObjectsV2Command b tok') (Resolves resp') \<in> set d"
        then obtain xs ys where "d = xs @ Call (ListObjectsV2Command b tok') (Resolves resp') # ys"
          by (auto simp: in_set_conv_decomp)
        with d(2) show False by (simp add: listings_append)
      qed
      with a(1) have "resp' = resp" by simp
      with a d(3) show "\<exists>rp. Call (DeleteObjectCommand b (Key obj)) rp \<in> set (Call ?c (Resolves resp) # d)"
        by auto
    qed
    ultimately show ?thesis using h' by blast
  next
    case True
    from Suc.IH [OF True rest] obtain t where
      t: "h' = h1 @ t" "threaded b (NextContinuationToken resp) (listings t)" "pages_deleted b t"
      by blast
    from t(2) have ne: "listings t \<noteq> []" by auto
    let ?t = "Call ?c (Resolves resp) # d @ t"
    have h': "h' = h @ ?t" using t(1) d(1) by simp
    have "threaded b tok (listings ?t)"
      using True t(2) ne d(2) by (simp add: listings_append threaded_Cons)
    moreover have "pages_deleted b ?t"
      unfolding pages_deleted_def
    proof (intro allI impI)
      fix tok' resp' objs obj
      assume a: "Call (ListObjectsV2Command b tok') (Resolves resp') \<in> set ?t"
        "Contents resp' = Some objs" "obj \<in> set objs"
      have nd: "Call (ListObjectsV2Command b tok') (Resolves resp') \<notin> set d"
      proof
        assume "Call (ListObjectsV2Command b tok') (Resolves resp') \<in> set d"
        then obtain xs ys where "d = xs @ Call (ListObjectsV2Command b tok') (Resolves resp') # ys"
          by (auto simp: in_set_conv_decomp)
        with d(2) show False by (simp add: listings_append)
      qed
      from a(1) nd consider "resp' = resp" | "Call (ListObjectsV2Command b tok') (Resolves resp') \<in> set t"
        by auto
      then show "\<exists>rp. Call (DeleteObjectCommand b (Key obj)) rp \<in> set ?t"
      proof cases
        case 1
        with a d(3) show ?thesis by auto
      next
        case 2
        with a t(3) show ?thesis unfolding pages_deleted_def by (metis Un_iff set_append list.set_intros(2))
      qed
    qed
    ultimately show ?thesis using h' by blast
  qed
qed

lemma purgeLoop_terminates:
  assumes ev: "\<forall>cs tok resp. N \<le> length cs \<longrightarrow>
      provider env cs (ListObjectsV2Command b tok) = Resolves resp \<longrightarrow> \<not> truthy (IsTruncated resp)"
  shows "\<exists>fuel res h'. purgeLoop fuel env b flag tok h = Some (res, h')"
proof (induction "N - length (calls_of h)" arbitrary: h flag tok rule: less_induct)
  case less
  show ?case
  proof (cases "truthy flag")
    case False
    then have "purgeLoop 0 env b flag tok h = Some (Inr (), h)" by (simp add: return_io_def)
    then show ?thesis by blast
  next
    case True
    let ?c = "ListObjectsV2Command b tok"
    show ?thesis
    proof (cases "provider env (calls_of h) ?c")
      case (Rejects e)
      with True have "purgeLoop (Suc 0) env b flag tok h
          = Some (Inl (Rejected e), h @ [Call ?c (Rejects e)])"
        by (simp add: bind_io_def send_def)
      then show ?thesis by blast
    next
      case (Resolves resp)
      let ?h1 = "h @ [Call ?c (Resolves resp)]"
      from deleteContents_total obtain res1 h2 where
        del: "deleteContents env b (Contents resp) ?h1 = Some (res1, h2)" by blast
      from deleteContents_Some [OF del] obtain d where h2: "h2 = ?h1 @ d" by blast
      have step: "purgeLoop (Suc fuel) env b flag tok h =
          (case res1 of Inl e \<Rightarrow> Some (Inl e, h2)
           | Inr u \<Rightarrow> purgeLoop fuel env b (IsTruncated resp) (NextContinuationToken resp) h2)"
        for fuel
        using True Resolves del by (simp add: bind_io_def then_io_def send_def split: sum.splits)
      show ?thesis
      proof (cases res1)
        case (Inl e)
        have "purgeLoop (Suc 0) env b flag tok h = Some (Inl e, h2)"
          unfolding step Inl by simp
        then show ?thesis by blast
      next
        case (Inr u)
        show ?thesis
        proof (cases "truthy (IsTruncated resp)")
          case False
          have "purgeLoop (Suc 0) env b flag tok h = Some (Inr (), h2)"
            unfolding step Inr using False by (simp add: return_io_def)
          then show ?thesis by blast
        next
          case True
          with ev Resolves have "\<not> N \<le> length (calls_of h)" by blast
          moreover have "length (calls_of h) < length (calls_of h2)"
            using h2 by (simp add: calls_of_append)
          ultimately have "N - length (calls_of h2) < N - length (calls_of h)" by arith
          from less [OF this] obtain fuel res h' where
            "purgeLoop fuel env b (IsTruncated resp) (NextContinuationToken resp) h2 = Some (res, h')"
            by blast
          then have "purgeLoop (Suc fuel) env b flag tok h = Some (res, h')"
            unfolding step Inr by simp
          then show ?thesis by blast
        qed
      qed
    qed
  qed
qed

text \<open>The events of \<^verbatim>\<open>deleteResources\<close>: the purge, then the three teardown calls.\<close>

lemma purge_event_not_DeleteBucket: "purge_event b e \<Longrightarrow> \<not> is_DeleteBucket e"
  by (induction b e rule: purge_event.induct) simp_all

lemma deleteResources_shape:
  assumes "deleteResources fuel env i b q h = Some (res, h')"
  shows "\<exists>tp rest. h' = h @ Log ''Deleting resources...'' # tp @ rest
      \<and> (\<forall>e \<in> set tp. purge_event b e)
      \<and> (rest = [] \<and> (\<exists>e. res = Inl e)
         \<or> threaded b None (listings tp) \<and> pages_deleted b tp
           \<and> (\<exists>r1. rest = [Call (TerminateInstancesCommand [i]) r1]
                 \<or> (\<exists>s1 r2 rest2. rest = [Call (TerminateInstancesCommand [i]) r1, Log s1,
                            Call (DeleteBucketCommand b) r2] @ rest2
                      \<and> (\<forall>e \<in> set rest2. \<not> is_DeleteBucket e))))"
proof -
  let ?h0 = "h @ [Log ''Deleting resources...'']"
  from assms consider
      (purge_fails) e where "purgeLoop fuel env b (Some True) None ?h0 = Some (Inl e, h')" "res = Inl e"
    | (purged) h1 where "purgeLoop fuel env b (Some True) None ?h0 = Some (Inr (), h1)"
        "bind_io (send env (TerminateInstancesCommand [i])) (\<lambda>_.
          then_io (console_log (''EC2 instance '' @ js_string i @ '' termination initiated''))
         (bind_io (send env (DeleteBucketCommand b)) (\<lambda>_.
          then_io (console_log (''S3 bucket '' @ b @ '' deleted''))
         (bind_io (send env (DeleteQueueCommand q)) (\<lambda>_.
          console_log (''SQS queue '' @ js_string q @ '' deleted'')))))) h1 = Some (res, h')"
    by (auto simp: deleteResources_def then_io_Some console_log_Some)
  then show ?thesis
  proof cases
    case purge_fails
    from purgeLoop_events [OF purge_fails(1)] purge_fails(2) show ?thesis by auto
  next
    case purged
    from purgeLoop_returns [OF _ purged(1)] obtain tp where
      tp: "h1 = ?h0 @ tp" "threaded b None (listings tp)" "pages_deleted b tp"
      by (auto simp: truthy_def)
    from purgeLoop_events [OF purged(1)] tp(1) have ev: "\<forall>e \<in> set tp. purge_event b e" by auto
    from purged(2) have "\<exists>rest. h' = h1 @ rest
         \<and> (\<exists>r1. rest = [Call (TerminateInstancesCommand [i]) r1]
                 \<or> (\<exists>s1 r2 rest2. rest = [Call (TerminateInstancesCommand [i]) r1, Log s1,
                            Call (DeleteBucketCommand b) r2] @ rest2
                      \<and> (\<forall>e \<in> set rest2. \<not> is_DeleteBucket e)))"
      by (auto simp: bind_io_Some then_io_Some send_Some console_log_Some)
    then obtain rest where rest: "h' = h1 @ rest"
        "\<exists>r1. rest = [Call (TerminateInstancesCommand [i]) r1]
                 \<or> (\<exists>s1 r2 rest2. rest = [Call (TerminateInstancesCommand [i]) r1, Log s1,
                            Call (DeleteBucketCommand b) r2] @ rest2
                      \<and> (\<forall>e \<in> set rest2. \<not> is_DeleteBucket e))"
      by blast
    from rest(1) tp(1) have "h' = h @ Log ''Deleting resources...'' # tp @ rest" by simp
    with tp(2,3) ev rest(2) show ?thesis by blast
  qed
qed

lemma listings_last_decomp:
  "listings xs \<noteq> [] \<Longrightarrow> \<exists>a c r mid. xs = a @ Call c r # mid \<and> listings mid = []
       \<and> last (listings xs) = (c, r)"
proof (induction xs rule: rev_induct)
  case Nil
  then show ?case by simp
next
  case (snoc x xs)
  show ?case
  proof (cases "listings [x] = []")
    case True
    with snoc.prems have "listings xs \<noteq> []" by (simp add: listings_append)
    from snoc.IH [OF this] obtain a c r mid where
      IH: "xs = a @ Call c r # mid" "listings mid = []" "last (listings xs) = (c, r)" by blast
    have "listings (xs @ [x]) = listings xs" using True by (simp add: listings_append)
    with IH(3) have "last (listings (xs @ [x])) = (c, r)" by simp
    moreover have "xs @ [x] = a @ Call c r # (mid @ [x])" using IH(1) by simp
    moreover have "listings (mid @ [x]) = []" using IH(2) True by (simp add: listings_append)
    ultimately show ?thesis by blast
  next
    case False
    have "\<exists>b tok r. x = Call (ListObjectsV2Command b tok) r"
    proof (cases x)
      case (Call c r)
      with False show ?thesis by (cases c) simp_all
    qed (use False in simp_all)
    then obtain b tok r where x: "x = Call (ListObjectsV2Command b tok) r" by blast
    then have "xs @ [x] = xs @ Call (ListObjectsV2Command b tok) r # []" "listings [] = []"
      "last (listings (xs @ [x])) = (ListObjectsV2Command b tok, r)"
      by (simp_all add: listings_append)
    then show ?thesis by blast
  qed
qed

lemma split_unique:
  assumes eq: "pre @ y # post = A @ x # B"
      and "P y" "\<forall>e \<in> set A. \<not> P e" "\<forall>e \<in> set B. \<not> P e"
  shows "pre = A"
proof -
  have "filter P (pre @ y # post) = filter P (A @ x # B)" using eq by simp
  with assms(2-4) have "filter P pre @ y # filter P post = (if P x then [x] else [])"
    by (simp add: filter_empty_conv [THEN iffD2])
  then have "filter P pre = []" by (auto split: if_splits simp: append_eq_Cons_conv)
  then have "\<forall>e \<in> set pre. \<not> P e" by (simp add: filter_empty_conv)
  then have "takeWhile (\<lambda>e. \<not> P e) (pre @ y # post) = pre"
    using assms(2) by (simp add: takeWhile_tail)
  moreover have "P x" using \<open>filter P pre @ y # filter P post = (if P x then [x] else [])\<close>
    by (auto split: if_splits)
  then have "takeWhile (\<lambda>e. \<not> P e) (A @ x # B) = A"
    using assms(3) by (simp add: takeWhile_tail)
  ultimately show ?thesis using eq by simp
qed

section \<open>A rejected call ends the run\<close>

lemma surfaces_return: "surfaces (return_io x)"
  by (simp add: surfaces_def return_io_def)

lemma surfaces_throw: "surfaces (throw_io TypeError)"
  by (simp add: surfaces_def throw_io_def)

lemma surfaces_console_log: "surfaces (console_log s)"
  by (simp add: surfaces_def console_log_def)

lemma surfaces_sleep: "surfaces (sleep n)"
  by (simp add: surfaces_def sleep_def)

lemma surfaces_Date_now: "surfaces (Date_now env)"
  by (simp add: surfaces_def Date_now_def)

lemma surfaces_send: "surfaces (send env c)"
  unfolding surfaces_def
proof (intro allI impI)
  fix h res h'
  assume "send env c h = Some (res, h')"
  then consider r where "res = Inr r" "h' = h @ [Call c (Resolves r)]"
    | e where "res = Inl (Rejected e)" "h' = h @ [] @ [Call c (Rejects e)]"
    by (auto simp: send_Some)
  then show "\<exists>t. h' = h @ t \<and> (quiet t \<and> (\<forall>e. res \<noteq> Inl (Rejected e))
        \<or> (\<exists>pre c e. t = pre @ [Call c (Rejects e)] \<and> quiet pre \<and> res = Inl (Rejected e)))"
  proof cases
    case 1
    then show ?thesis by simp
  next
    case 2
    have "quiet []" by simp
    with 2 show ?thesis by blast
  qed
qed

lemma surfaces_member_of: "surfaces (member_of x)"
  by (cases x) (simp_all add: member_of_def surfaces_return surfaces_throw)

lemma surfaces_index0: "surfaces (index0 xs)"
  by (auto simp: index0_def surfaces_return surfaces_throw split: option.splits list.splits)

lemma surfacesD:
  "surfaces m \<Longrightarrow> m h = Some (res, h') \<Longrightarrow>
     \<exists>t. h' = h @ t \<and> (quiet t \<and> (\<forall>e. res \<noteq> Inl (Rejected e))
        \<or> (\<exists>pre c e. t = pre @ [Call c (Rejects e)] \<and> quiet pre \<and> res = Inl (Rejected e)))"
  unfolding surfaces_def by (elim allE impE) assumption+

lemma surfaces_bind:
  assumes m: "surfaces m" and f: "\<And>x. surfaces (f x)"
  shows "surfaces (bind_io m f)"
  unfolding surfaces_def
proof (intro allI impI)
  fix h res h'
  assume "bind_io m f h = Some (res, h')"
  then consider (stop) e where "m h = Some (Inl e, h')" "res = Inl e"
    | (go) x h1 where "m h = Some (Inr x, h1)" "f x h1 = Some (res, h')"
    by (auto simp: bind_io_Some)
  then show "\<exists>t. h' = h @ t \<and> (quiet t \<and> (\<forall>e. res \<noteq> Inl (Rejected e))
        \<or> (\<exists>pre c e. t = pre @ [Call c (Rejects e)] \<and> quiet pre \<and> res = Inl (Rejected e)))"
  proof cases
    case stop
    from surfacesD [OF m stop(1)] stop(2) show ?thesis by simp
  next
    case go
    from surfacesD [OF m go(1)] obtain t1 where t1: "h1 = h @ t1" "quiet t1"
      by auto
    from surfacesD [OF f go(2)] obtain t2 where t2: "h' = h1 @ t2"
      "quiet t2 \<and> (\<forall>e. res \<noteq> Inl (Rejected e))
        \<or> (\<exists>pre c e. t2 = pre @ [Call c (Rejects e)] \<and> quiet pre \<and> res = Inl (Rejected e))"
      by auto
    from t2(2) show ?thesis
    proof
      assume "quiet t2 \<and> (\<forall>e. res \<noteq> Inl (Rejected e))"
      with t1 t2(1) have "h' = h @ (t1 @ t2)" "quiet (t1 @ t2)" "\<forall>e. res \<noteq> Inl (Rejected e)"
        by simp_all
      then show ?thesis by blast
    next
      assume "\<exists>pre c e. t2 = pre @ [Call c (Rejects e)] \<and> quiet pre \<and> res = Inl (Rejected e)"
      then obtain pre c e where "t2 = pre @ [Call c (Rejects e)]" "quiet pre" "res = Inl (Rejected e)"
        by blast
      with t1 t2(1) have "h' = h @ ((t1 @ pre) @ [Call c (Rejects e)])" "quiet (t1 @ pre)"
        "res = Inl (Rejected e)" by simp_all
      then show ?thesis by blast
    qed
  qed
qed

lemma surfaces_then: "surfaces m \<Longrightarrow> surfaces k \<Longrightarrow> surfaces (then_io m k)"
  by (simp add: then_io_def surfaces_bind)

lemma surfaces_forEach: "(\<And>x. surfaces (f x)) \<Longrightarrow> surfaces (forEach xs f)"
  by (induction xs) (simp_all add: surfaces_return surfaces_then)

lemma surfaces_forEach_strict: "(\<And>x. surfaces (f x)) \<Longrightarrow> surfaces (forEach_strict xs f)"
  by (cases xs) (simp_all add: forEach_strict_def surfaces_throw surfaces_forEach)

lemma surfaces_forEach_optional: "(\<And>x. surfaces (f x)) \<Longrightarrow> surfaces (forEach_optional xs f)"
  by (cases xs) (simp_all add: forEach_optional_def surfaces_return surfaces_forEach)

lemma surfaces_if: "surfaces a \<Longrightarrow> surfaces b \<Longrightarrow> surfaces (if c then a else b)"
  by simp

lemma surfaces_never: "surfaces (\<lambda>h. None)"
  by (simp add: surfaces_def)

lemmas surfaces_intros = surfaces_return surfaces_throw surfaces_console_log surfaces_sleep
  surfaces_Date_now surfaces_send surfaces_member_of surfaces_index0 surfaces_bind surfaces_then
  surfaces_forEach surfaces_forEach_strict surfaces_forEach_optional surfaces_if surfaces_never

lemma surfaces_createResources: "surfaces (createResources env imageId)"
  unfolding createResources_def Let_def by (intro surfaces_intros)

lemma surfaces_uploadFileToS3: "surfaces (uploadFileToS3 env b)"
  unfolding uploadFileToS3_def by (intro surfaces_intros)

lemma surfaces_sendMessageToSQS: "surfaces (sendMessageToSQS env q)"
  unfolding sendMessageToSQS_def by (intro surfaces_intros)

lemma surfaces_checkSQSMessages: "surfaces (checkSQSMessages env q)"
  unfolding checkSQSMessages_def by (intro surfaces_intros)

lemma surfaces_receiveSQSMessage: "surfaces (receiveSQSMessage env q)"
  unfolding receiveSQSMessage_def
  by (intro surfaces_intros) (auto split: option.splits list.splits intro!: surfaces_intros)

lemma surfaces_deleteContents: "surfaces (deleteContents env b contents)"
  unfolding deleteContents_def by (cases contents) (auto intro!: surfaces_intros)

lemma surfaces_purgeLoop: "surfaces (purgeLoop fuel env b flag tok)"
  by (induction fuel arbitrary: flag tok) (auto intro!: surfaces_intros surfaces_deleteContents)

lemma surfaces_deleteResources: "surfaces (deleteResources fuel env i b q)"
  unfolding deleteResources_def by (intro surfaces_intros surfaces_purgeLoop)

lemma surfaces_listResources_p1: "surfaces (listResources_p1 env)"
  unfolding listResources_p1_def by (intro surfaces_intros)

lemma surfaces_listResources_part_000: "surfaces (listResources_part_000 env)"
  unfolding listResources_part_000_def by (intro surfaces_intros)

lemma surfaces_main_body:
  "(\<And>env. surfaces (listResources env)) \<Longrightarrow> surfaces (main_body listResources msg ms fuel env imageId)"
  unfolding main_body_def
  by (intro surfaces_intros surfaces_createResources surfaces_uploadFileToS3 surfaces_sendMessageToSQS
      surfaces_checkSQSMessages surfaces_receiveSQSMessage surfaces_deleteResources)
     (auto intro!: surfaces_intros surfaces_createResources surfaces_uploadFileToS3 surfaces_sendMessageToSQS
      surfaces_checkSQSMessages surfaces_receiveSQSMessage surfaces_deleteResources)

lemma try_catch_surfaces:
  assumes body: "surfaces body"
      and run: "try_catch body (\<lambda>error. console_error s error) h = Some (res, h @ t)"
      and rej: "Call c (Rejects e) \<in> set t"
  shows "res = Inr () \<and> (\<exists>pre. t = pre @ [Call c (Rejects e), LogError s (Rejected e)] \<and> quiet pre)"
proof -
  have nq: "\<not> quiet t'" if "Call c (Rejects e) \<in> set t'" for t'
  proof
    assume "quiet t'"
    with that have "\<not> is_rejection (Call c (Rejects e))" unfolding quiet_def by blast
    then show False by simp
  qed
  from run consider
      (returns) u where "body h = Some (Inr u, h @ t)"
    | (throws) err hb where "body h = Some (Inl err, hb)" "h @ t = hb @ [LogError s err]" "res = Inr ()"
    by (auto simp: try_catch_def console_error_def split: option.splits sum.splits)
  then show ?thesis
  proof cases
    case returns
    from surfacesD [OF body returns] have "quiet t" by auto
    with nq [OF rej] show ?thesis by simp
  next
    case throws
    from surfacesD [OF body throws(1)] obtain tb where tb: "hb = h @ tb"
      "quiet tb \<or> (\<exists>pre c e. tb = pre @ [Call c (Rejects e)] \<and> quiet pre \<and> err = Rejected e)"
      by auto
    from throws(2) tb(1) have t: "t = tb @ [LogError s err]" by simp
    with rej have "Call c (Rejects e) \<in> set tb" by simp
    with tb(2) nq obtain pre c' e' where
      pre: "tb = pre @ [Call c' (Rejects e')]" "quiet pre" "err = Rejected e'"
      by blast
    from \<open>Call c (Rejects e) \<in> set tb\<close> pre(1,2) nq [of pre] have "c' = c" "e' = e" by auto
    with pre t throws(3) show ?thesis by simp
  qed
qed


section \<open>The calls and pauses of a run that returns normally\<close>


























section \<open>The two scripts issue the same calls\<close>

lemma same_callsI:
  assumes "\<And>h1 h2. calls_of h1 = calls_of h2 \<Longrightarrow> m1 h1 = None \<Longrightarrow> m2 h2 = None"
      and "\<And>h1 h2 r1 h1'. calls_of h1 = calls_of h2 \<Longrightarrow> m1 h1 = Some (r1, h1')
             \<Longrightarrow> \<exists>h2'. m2 h2 = Some (r1, h2') \<and> calls_of h1' = calls_of h2'"
  shows "same_calls m1 m2"
  unfolding same_calls_def
proof (intro allI impI)
  fix h1 h2 :: "event list"
  assume c: "calls_of h1 = calls_of h2"
  show "case (m1 h1, m2 h2) of
        (None, None) \<Rightarrow> True
      | (Some (r1, h1'), Some (r2, h2')) \<Rightarrow> r1 = r2 \<and> calls_of h1' = calls_of h2'
      | _ \<Rightarrow> False"
  proof (cases "m1 h1")
    case None
    with assms(1) [OF c] show ?thesis by simp
  next
    case (Some p)
    obtain r1 h1' where p: "p = (r1, h1')" by (cases p)
    from assms(2) [OF c Some [unfolded p]] obtain h2' where
      "m2 h2 = Some (r1, h2')" "calls_of h1' = calls_of h2'" by blast
    with Some p show ?thesis by simp
  qed
qed

lemma same_callsD_None:
  "same_calls m1 m2 \<Longrightarrow> calls_of h1 = calls_of h2 \<Longrightarrow> m1 h1 = None \<Longrightarrow> m2 h2 = None"
  unfolding same_calls_def
  by (erule allE [of _ h1], erule allE [of _ h2]) (auto split: option.splits)

lemma same_callsD_Some:
  "same_calls m1 m2 \<Longrightarrow> calls_of h1 = calls_of h2 \<Longrightarrow> m1 h1 = Some (r1, h1')
     \<Longrightarrow> \<exists>h2'. m2 h2 = Some (r1, h2') \<and> calls_of h1' = calls_of h2'"
  unfolding same_calls_def
  by (erule allE [of _ h1], erule allE [of _ h2]) (auto split: option.splits)

lemma same_calls_return: "same_calls (return_io x) (return_io x)"
  by (rule same_callsI) (simp_all add: return_io_def)

lemma same_calls_throw: "same_calls (throw_io e) (throw_io e)"
  by (rule same_callsI) (simp_all add: throw_io_def)

lemma same_calls_console_log: "same_calls (console_log s) (console_log s')"
  by (rule same_callsI) (auto simp: console_log_def calls_of_append)

lemma same_calls_sleep: "same_calls (sleep n) (sleep n')"
  by (rule same_callsI) (auto simp: sleep_def calls_of_append)

lemma same_calls_Date_now: "same_calls (Date_now env) (Date_now env)"
  by (rule same_callsI) (auto simp: Date_now_def)

lemma same_calls_send: "same_calls (send env c) (send env c)"
  by (rule same_callsI) (auto simp: send_def calls_of_append split: reply.splits)

lemma same_calls_member_of: "same_calls (member_of x) (member_of x)"
  by (cases x) (simp_all add: member_of_def same_calls_return same_calls_throw)

lemma same_calls_index0: "same_calls (index0 xs) (index0 xs)"
  by (auto simp: index0_def same_calls_return same_calls_throw split: option.splits list.splits)

lemma same_calls_bind:
  assumes m: "same_calls m1 m2" and f: "\<And>x. same_calls (f1 x) (f2 x)"
  shows "same_calls (bind_io m1 f1) (bind_io m2 f2)"
proof (rule same_callsI)
  fix h1 h2 :: "event list"
  assume c: "calls_of h1 = calls_of h2" and n: "bind_io m1 f1 h1 = None"
  show "bind_io m2 f2 h2 = None"
  proof (cases "m1 h1")
    case None
    from same_callsD_None [OF m c None] show ?thesis by (simp add: bind_io_def)
  next
    case (Some p)
    obtain r h1' where p: "p = (r, h1')" by (cases p)
    from same_callsD_Some [OF m c Some [unfolded p]] obtain h2' where
      m2: "m2 h2 = Some (r, h2')" and c': "calls_of h1' = calls_of h2'" by blast
    show ?thesis
    proof (cases r)
      case (Inl e)
      with n Some p show ?thesis by (simp add: bind_io_def)
    next
      case (Inr x)
      with n Some p have "f1 x h1' = None" by (simp add: bind_io_def)
      from same_callsD_None [OF f c' this] m2 Inr show ?thesis by (simp add: bind_io_def)
    qed
  qed
next
  fix h1 h2 r1 h1'
  assume c: "calls_of h1 = calls_of h2" and s: "bind_io m1 f1 h1 = Some (r1, h1')"
  from s consider (stop) e where "m1 h1 = Some (Inl e, h1')" "r1 = Inl e"
    | (go) x k where "m1 h1 = Some (Inr x, k)" "f1 x k = Some (r1, h1')"
    by (auto simp: bind_io_Some)
  then show "\<exists>h2'. bind_io m2 f2 h2 = Some (r1, h2') \<and> calls_of h1' = calls_of h2'"
  proof cases
    case stop
    from same_callsD_Some [OF m c stop(1)] stop(2) show ?thesis by (auto simp: bind_io_def)
  next
    case go
    from same_callsD_Some [OF m c go(1)] obtain k2 where
      "m2 h2 = Some (Inr x, k2)" "calls_of k = calls_of k2" by blast
    with same_callsD_Some [OF f this(2) go(2)] show ?thesis by (auto simp: bind_io_def)
  qed
qed

lemma same_calls_then: "same_calls m1 m2 \<Longrightarrow> same_calls k1 k2 \<Longrightarrow> same_calls (then_io m1 k1) (then_io m2 k2)"
  by (simp add: then_io_def same_calls_bind)

lemma same_calls_forEach:
  "(\<And>x. same_calls (f x) (g x)) \<Longrightarrow> same_calls (forEach xs f) (forEach xs g)"
  by (induction xs) (simp_all add: same_calls_return same_calls_then)

lemma same_calls_if: "same_calls a a' \<Longrightarrow> same_calls b b' \<Longrightarrow> same_calls (if c then a else b) (if c then a' else b')"
  by simp

lemma same_calls_never: "same_calls (\<lambda>h. None) (\<lambda>h. None)"
  by (simp add: same_calls_def)

lemmas same_calls_intros = same_calls_return same_calls_throw same_calls_console_log
  same_calls_sleep same_calls_Date_now same_calls_send same_calls_member_of same_calls_index0
  same_calls_bind same_calls_then same_calls_forEach same_calls_if same_calls_never

lemma same_calls_createResources: "same_calls (createResources env imageId) (createResources env imageId)"
  unfolding createResources_def Let_def by (intro same_calls_intros)

lemma same_calls_uploadFileToS3: "same_calls (uploadFileToS3 env b) (uploadFileToS3 env b)"
  unfolding uploadFileToS3_def by (intro same_calls_intros)

lemma same_calls_sendMessageToSQS: "same_calls (sendMessageToSQS env q) (sendMessageToSQS env q)"
  unfolding sendMessageToSQS_def by (intro same_calls_intros)

lemma same_calls_checkSQSMessages: "same_calls (checkSQSMessages env q) (checkSQSMessages env q)"
  unfolding checkSQSMessages_def by (intro same_calls_intros)

lemma same_calls_receiveSQSMessage: "same_calls (receiveSQSMessage env q) (receiveSQSMessage env q)"
  unfolding receiveSQSMessage_def
  by (intro same_calls_intros) (auto split: option.splits list.splits intro!: same_calls_intros)

lemma same_calls_deleteContents: "same_calls (deleteContents env b contents) (deleteContents env b contents)"
  unfolding deleteContents_def by (cases contents) (auto intro!: same_calls_intros)

lemma same_calls_purgeLoop: "same_calls (purgeLoop fuel env b flag tok) (purgeLoop fuel env b flag tok)"
  by (induction fuel arbitrary: flag tok) (auto intro!: same_calls_intros same_calls_deleteContents)

lemma same_calls_deleteResources:
  "same_calls (deleteResources fuel env i b q) (deleteResources fuel env i b q)"
  unfolding deleteResources_def by (intro same_calls_intros same_calls_purgeLoop)

lemma callfree_same_calls:
  assumes "callfree m1 r" "callfree m2 r"
  shows "same_calls m1 m2"
proof (rule same_callsI)
  fix h1 h2 :: "event list"
  assume "m1 h1 = None"
  with assms(1) show "m2 h2 = None" unfolding callfree_def by (metis option.distinct(1))
next
  fix h1 h2 r1 h1'
  assume c: "calls_of h1 = calls_of h2" and s: "m1 h1 = Some (r1, h1')"
  from assms(1) obtain t1 where "m1 h1 = Some (r, h1 @ t1)" "calls_of t1 = []"
    unfolding callfree_def by blast
  with s have "r1 = r" "h1' = h1 @ t1" by simp_all
  with \<open>calls_of t1 = []\<close> have 1: "r1 = r" "calls_of h1' = calls_of h1"
    by (simp_all add: calls_of_append)
  from assms(2) obtain t2 where "m2 h2 = Some (r, h2 @ t2)" "calls_of t2 = []"
    unfolding callfree_def by blast
  with 1 c show "\<exists>h2'. m2 h2 = Some (r1, h2') \<and> calls_of h1' = calls_of h2'"
    by (simp add: calls_of_append)
qed

lemma callfree_return: "callfree (return_io x) (Inr x)"
  by (simp add: callfree_def return_io_def)

lemma callfree_throw: "callfree (throw_io e) (Inl e)"
  by (simp add: callfree_def throw_io_def)

lemma callfree_console_log: "callfree (console_log s) (Inr ())"
  by (simp add: callfree_def console_log_def)

lemma callfree_then:
  assumes "callfree m (Inr ())" "callfree k r"
  shows "callfree (then_io m k) r"
  unfolding callfree_def
proof
  fix h
  from assms(1) obtain t1 where 1: "m h = Some (Inr (), h @ t1)" "calls_of t1 = []"
    unfolding callfree_def by blast
  from assms(2) obtain t2 where 2: "k (h @ t1) = Some (r, (h @ t1) @ t2)" "calls_of t2 = []"
    unfolding callfree_def by blast
  from 1 2 have "then_io m k h = Some (r, h @ (t1 @ t2))" "calls_of (t1 @ t2) = []"
    by (simp_all add: then_io_def bind_io_def calls_of_append)
  then show "\<exists>t. then_io m k h = Some (r, h @ t) \<and> calls_of t = []" by blast
qed

lemma callfree_forEach:
  "(\<And>x. x \<in> set xs \<Longrightarrow> callfree (f x) (Inr ())) \<Longrightarrow> callfree (forEach xs f) (Inr ())"
  by (induction xs) (simp_all add: callfree_return callfree_then)

lemma callfree_instance_p1:
  "State inst \<noteq> None \<Longrightarrow>
   callfree (bind_io (member_of (State inst)) (\<lambda>state.
         if StateName state = Some ''running''
         then console_log (''  '' @ js_string (InstanceId inst))
         else return_io ())) (Inr ())"
  by (auto simp: callfree_def member_of_def bind_io_def return_io_def console_log_def)

lemma same_calls_reservation:
  assumes "\<forall>insts. ResInstances res = Some insts \<longrightarrow> (\<forall>i \<in> set insts. State i \<noteq> None)"
  shows "same_calls
     (forEach_strict (ResInstances res) (\<lambda>inst.
         bind_io (member_of (State inst)) (\<lambda>state.
         if StateName state = Some ''running''
         then console_log (''  '' @ js_string (InstanceId inst))
         else return_io ())))
     (forEach_strict (ResInstances res) (\<lambda>inst.
         console_log (''  '' @ js_string (InstanceId inst))))"
proof (cases "ResInstances res")
  case None
  then show ?thesis by (simp add: forEach_strict_def same_calls_throw)
next
  case (Some insts)
  with assms have "\<forall>i \<in> set insts. State i \<noteq> None" by simp
  then have "callfree (forEach insts (\<lambda>inst.
         bind_io (member_of (State inst)) (\<lambda>state.
         if StateName state = Some ''running''
         then console_log (''  '' @ js_string (InstanceId inst))
         else return_io ()))) (Inr ())"
    by (intro callfree_forEach callfree_instance_p1) simp
  moreover have "callfree (forEach insts (\<lambda>inst.
         console_log (''  '' @ js_string (InstanceId inst)))) (Inr ())"
    by (intro callfree_forEach callfree_console_log)
  ultimately show ?thesis using Some by (simp add: forEach_strict_def callfree_same_calls)
qed

lemma same_calls_forEach_mem:
  "(\<And>x. x \<in> set xs \<Longrightarrow> same_calls (f x) (g x)) \<Longrightarrow> same_calls (forEach xs f) (forEach xs g)"
  by (induction xs) (simp_all add: same_calls_return same_calls_then)

lemma same_calls_send_bind:
  assumes "\<And>cs r. provider env cs c = Resolves r \<Longrightarrow> same_calls (f1 r) (f2 r)"
  shows "same_calls (bind_io (send env c) f1) (bind_io (send env c) f2)"
proof (rule same_callsI)
  fix h1 h2 :: "event list"
  assume c: "calls_of h1 = calls_of h2" and n: "bind_io (send env c) f1 h1 = None"
  then obtain r where r: "provider env (calls_of h1) c = Resolves r"
    and "f1 r (h1 @ [Call c (Resolves r)]) = None"
    by (auto simp: bind_io_def send_def split: reply.splits)
  from same_callsD_None [OF assms [OF r] _ this(2), of "h2 @ [Call c (Resolves r)]"] c r
  show "bind_io (send env c) f2 h2 = None"
    by (simp add: bind_io_def send_def calls_of_append)
next
  fix h1 h2 r1 h1'
  assume c: "calls_of h1 = calls_of h2" and s: "bind_io (send env c) f1 h1 = Some (r1, h1')"
  show "\<exists>h2'. bind_io (send env c) f2 h2 = Some (r1, h2') \<and> calls_of h1' = calls_of h2'"
  proof (cases "provider env (calls_of h1) c")
    case (Rejects e)
    with s c show ?thesis by (auto simp: bind_io_def send_def calls_of_append)
  next
    case (Resolves r)
    with s have "f1 r (h1 @ [Call c (Resolves r)]) = Some (r1, h1')"
      by (simp add: bind_io_def send_def)
    from same_callsD_Some [OF assms [OF Resolves] _ this, of "h2 @ [Call c (Resolves r)]"] c Resolves
    show ?thesis by (simp add: bind_io_def send_def calls_of_append)
  qed
qed

lemma same_calls_listResources:
  assumes "listings_complete env"
  shows "same_calls (listResources_p1 env) (listResources_part_000 env)"
  unfolding listResources_p1_def listResources_part_000_def
proof (intro same_calls_then same_calls_console_log same_calls_send_bind)
  fix cs r
  assume "provider env cs DescribeInstancesCommand = Resolves r"
  with assms obtain rs where rs: "Reservations r = Some rs"
    "\<forall>res \<in> set rs. \<forall>insts. ResInstances res = Some insts \<longrightarrow> (\<forall>i \<in> set insts. State i \<noteq> None)"
    unfolding listings_complete_def by blast
  show "same_calls
     (forEach_optional (Reservations r) (\<lambda>reservation.
       forEach_strict (ResInstances reservation) (\<lambda>inst.
         bind_io (member_of (State inst)) (\<lambda>state.
         if StateName state = Some ''running''
         then console_log (''  '' @ js_string (InstanceId inst))
         else return_io ()))))
     (forEach_strict (Reservations r) (\<lambda>reservation.
       forEach_strict (ResInstances reservation) (\<lambda>inst.
         console_log (''  '' @ js_string (InstanceId inst)))))"
    unfolding rs(1) forEach_optional_def forEach_strict_def [of "Some rs"] option.case
  proof (rule same_calls_forEach_mem)
    fix res
    assume "res \<in> set rs"
    with rs(2) have "\<forall>insts. ResInstances res = Some insts \<longrightarrow> (\<forall>i \<in> set insts. State i \<noteq> None)"
      by blast
    then show "same_calls
       (forEach_strict (ResInstances res) (\<lambda>inst.
         bind_io (member_of (State inst)) (\<lambda>state.
         if StateName state = Some ''running''
         then console_log (''  '' @ js_string (InstanceId inst))
         else return_io ())))
       (forEach_strict (ResInstances res) (\<lambda>inst.
         console_log (''  '' @ js_string (InstanceId inst))))"
      by (rule same_calls_reservation)
  qed
next
  fix cs r
  assume "provider env cs ListBucketsCommand = Resolves r"
  with assms obtain bs where "Buckets r = Some bs" unfolding listings_complete_def by blast
  then show "same_calls
     (forEach_optional (Buckets r) (\<lambda>bucket. console_log (''  '' @ js_string (Name bucket))))
     (forEach_strict (Buckets r) (\<lambda>bucket. console_log (''  '' @ js_string (Name bucket))))"
    by (simp add: forEach_optional_def forEach_strict_def same_calls_forEach same_calls_console_log)
next
  fix cs r
  assume "provider env cs ListQueuesCommand = Resolves r"
  with assms obtain qs where "QueueUrls r = Some qs" unfolding listings_complete_def by blast
  then show "same_calls
     (forEach_optional (QueueUrls r) (\<lambda>queueUrl. console_log (''  '' @ queueUrl)))
     (forEach_strict (QueueUrls r) (\<lambda>queueUrl. console_log (''  '' @ queueUrl)))"
    by (simp add: forEach_optional_def forEach_strict_def same_calls_forEach same_calls_console_log)
qed

lemma same_calls_main_body:
  assumes "same_calls (lr1 env) (lr2 env)"
  shows "same_calls (main_body lr1 msg1 ms1 fuel env imageId) (main_body lr2 msg2 ms2 fuel env imageId)"
  unfolding main_body_def
  by (intro same_calls_bind same_calls_createResources)
     (auto intro!: same_calls_then same_calls_console_log same_calls_sleep assms
        same_calls_uploadFileToS3 same_calls_sendMessageToSQS same_calls_checkSQSMessages
        same_calls_receiveSQSMessage same_calls_deleteResources)

lemma same_calls_try_catch:
  assumes "same_calls b1 b2"
  shows "same_calls (try_catch b1 (\<lambda>error. console_error s error))
                    (try_catch b2 (\<lambda>error. console_error s error))"
proof (rule same_callsI)
  fix h1 h2 :: "event list"
  assume c: "calls_of h1 = calls_of h2"
    and "try_catch b1 (\<lambda>error. console_error s error) h1 = None"
  then have "b1 h1 = None"
    by (auto simp: try_catch_def console_error_def split: option.splits sum.splits)
  from same_callsD_None [OF assms c this]
  show "try_catch b2 (\<lambda>error. console_error s error) h2 = None" by (simp add: try_catch_def)
next
  fix h1 h2 r1 h1'
  assume c: "calls_of h1 = calls_of h2"
    and s: "try_catch b1 (\<lambda>error. console_error s error) h1 = Some (r1, h1')"
  then obtain r k where b1: "b1 h1 = Some (r, k)"
    by (auto simp: try_catch_def split: option.splits)
  from same_callsD_Some [OF assms c this] obtain k2 where
    b2: "b2 h2 = Some (r, k2)" "calls_of k = calls_of k2" by blast
  with s b1 show "\<exists>h2'. try_catch b2 (\<lambda>error. console_error s error) h2 = Some (r1, h2')
       \<and> calls_of h1' = calls_of h2'"
    by (cases r) (auto simp: try_catch_def console_error_def calls_of_append)
qed

section \<open>Runs on the sample providers\<close>

lemmas demo_defs = demo_env_def demo_run_def demo_queue_def demo_reservations_def demo_buckets_def
  demo_queues_def demo_attributes_def demo_messages_def demo_message_def demo_page1_def
  demo_page2_def empty_response_def demo_setup_trace_def demo_purge_trace_def

lemmas routine_defs = main_p1_def main_part_000_def main_body_def try_catch_def console_error_def
  createResources_def listResources_p1_def listResources_part_000_def uploadFileToS3_def
  sendMessageToSQS_def checkSQSMessages_def receiveSQSMessage_def deleteResources_def
  deleteContents_def forEach_strict_def forEach_optional_def truthy_def js_string_def
  Let_def

lemma failing_run:
  "main_p1 1 failing_env ImageId_p1 [] = Some (Inr (), [] @ ((demo_setup_trace @
      [Log ''Deleting resources...'',
       Call (ListObjectsV2Command ''my-test-bucket-7'' None) (Resolves demo_page1)])
     @ [Call (DeleteObjectCommand ''my-test-bucket-7'' (Some ''k1'')) (Rejects ''AccessDenied''),
        LogError ''An error occurred:'' (Rejected ''AccessDenied'')]))"
  by (simp add: routine_defs io_defs demo_defs failing_env_def show_nat_7 del: show_nat.simps)

lemma demo_run:
  "main_p1 2 demo_env ImageId_p1 [] = Some (Inr (), [] @ (demo_setup_trace @ demo_teardown_trace))"
  by (simp add: routine_defs io_defs demo_defs demo_teardown_trace_def show_nat_7 numeral_2_eq_2)

section \<open>With enough fuel the driver settles\<close>


























lemma pages_run_out_by_count:
  assumes "\<forall>cs b tok resp. N \<le> length cs \<longrightarrow>
      provider env cs (ListObjectsV2Command b tok) = Resolves resp \<longrightarrow> \<not> truthy (IsTruncated resp)"
  shows "pages_run_out env"
  unfolding pages_run_out_def
proof (intro exI [of _ "\<lambda>cs tok. N - length cs"] allI impI)
  fix cs b tok resp later
  assume "provider env cs (ListObjectsV2Command b tok) = Resolves resp" "truthy (IsTruncated resp)"
  with assms have "\<not> N \<le> length cs" by blast
  then show "N - length (cs @ (ListObjectsV2Command b tok, Resolves resp) # later) < N - length cs"
    by simp
qed









section \<open>Further runs on sample providers\<close>




section \<open>The claims\<close>

text \<open>
  C1, as claimed: the purge loop exits only after a listing response whose truncation
  flag is false. This fails: the loop tests the truthiness of \<^verbatim>\<open>isTruncated\<close>, and
  below it exits after a single listing response that has no truncation flag at all.
\<close>

theorem C1_counterexample:
  "purgeLoop 1 blank_env ''B'' (Some True) None [] = Some (Inr (),
      [Call (ListObjectsV2Command ''B'' None) (Resolves empty_response)])
   \<and> IsTruncated empty_response = None"
  by (simp add: io_defs deleteContents_def truthy_def blank_env_def empty_response_def)

text \<open>
  C1, amended: when the purge loop of \<^verbatim>\<open>deleteResources\<close> exits normally, its listing
  calls form a chain: the first carries no continuation token, each one that resolved
  with a true truncation flag is followed by a call carrying the continuation token of
  that response, and the last one resolved with a truncation flag that is false or
  absent. By then a delete call has been issued for every object key of every page
  listed.
\<close>

theorem C1_purge_pages:
  assumes "purgeLoop fuel env bucketName (Some True) None h = Some (Inr (), h @ t)"
  shows "threaded bucketName None (listings t) \<and> pages_deleted bucketName t"
  using purgeLoop_returns [OF _ assms] by (auto simp: truthy_def)

theorem C1_purge_pages_witness:
  "purgeLoop 2 demo_env ''B'' (Some True) None [] = Some (Inr (), [] @ demo_purge_trace ''B'')
   \<and> threaded ''B'' None (listings (demo_purge_trace ''B''))
   \<and> pages_deleted ''B'' (demo_purge_trace ''B'')"
proof -
  have run: "purgeLoop 2 demo_env ''B'' (Some True) None [] = Some (Inr (), [] @ demo_purge_trace ''B'')"
    by (simp add: io_defs deleteContents_def truthy_def demo_env_def demo_messages_def demo_purge_trace_def
        demo_page1_def demo_page2_def empty_response_def js_string_def numeral_2_eq_2)
  from C1_purge_pages [OF run] run show ?thesis by simp
qed

text \<open>
  C2, as claimed: the bucket deletion call is issued only after a listing response has
  reported truncation=false. This fails for the same reason: below the bucket is deleted
  after a single listing response that has no truncation flag.
\<close>

theorem C2_counterexample:
  "deleteResources 1 blank_env (Some ''i'') ''B'' (Some ''q'') [] = Some (Inr (),
     [Log ''Deleting resources...'',
      Call (ListObjectsV2Command ''B'' None) (Resolves empty_response),
      Call (TerminateInstancesCommand [Some ''i'']) (Resolves empty_response),
      Log ''EC2 instance i termination initiated'',
      Call (DeleteBucketCommand ''B'') (Resolves empty_response),
      Log ''S3 bucket B deleted'',
      Call (DeleteQueueCommand (Some ''q'')) (Resolves empty_response),
      Log ''SQS queue q deleted''])
   \<and> IsTruncated empty_response = None"
  by (simp add: deleteResources_def io_defs deleteContents_def truthy_def blank_env_def
      empty_response_def js_string_def)

text \<open>
  C2, amended: in \<^verbatim>\<open>deleteResources\<close>, whatever the outcome of the run, a bucket
  deletion call is preceded by a listing call that resolved with a truncation flag that
  is false or absent, with no other listing call in between. So the call is never issued
  while the loop is running, and no page with a true truncation flag precedes it without
  a final page in between.
\<close>

theorem C2_bucket_deletion_after_final_page:
  assumes run: "deleteResources fuel env instanceId bucketName queueUrl h = Some (res, h @ t)"
      and occ: "t = pre @ Call (DeleteBucketCommand b') rp # post"
  shows "\<exists>a tok resp mid.
           pre = a @ Call (ListObjectsV2Command bucketName tok) (Resolves resp) # mid
           \<and> \<not> truthy (IsTruncated resp) \<and> listings mid = []"
proof -
  let ?T = "TerminateInstancesCommand [instanceId]"
  from deleteResources_shape [OF run] obtain tp rest where
    ht: "h @ t = h @ Log ''Deleting resources...'' # tp @ rest"
    and tp: "\<forall>e \<in> set tp. purge_event bucketName e"
    and rest: "rest = [] \<and> (\<exists>e. res = Inl e)
         \<or> threaded bucketName None (listings tp) \<and> pages_deleted bucketName tp
           \<and> (\<exists>r1. rest = [Call ?T r1]
                 \<or> (\<exists>s1 r2 rest2. rest = [Call ?T r1, Log s1,
                            Call (DeleteBucketCommand bucketName) r2] @ rest2
                      \<and> (\<forall>e \<in> set rest2. \<not> is_DeleteBucket e)))"
    by blast
  from ht have t: "t = Log ''Deleting resources...'' # tp @ rest" by simp
  have tp': "\<forall>e \<in> set tp. \<not> is_DeleteBucket e"
    using tp purge_event_not_DeleteBucket by blast
  have "is_DeleteBucket (Call (DeleteBucketCommand b') rp)" by simp
  moreover have "Call (DeleteBucketCommand b') rp \<in> set t" using occ by simp
  ultimately have ex: "\<exists>e \<in> set t. is_DeleteBucket e" by blast
  from rest t tp' ex obtain r1 s1 r2 rest2 where
    thr: "threaded bucketName None (listings tp)"
    and r: "rest = [Call ?T r1, Log s1, Call (DeleteBucketCommand bucketName) r2] @ rest2"
    and rest2: "\<forall>e \<in> set rest2. \<not> is_DeleteBucket e"
    by auto
  let ?A = "Log ''Deleting resources...'' # tp @ [Call ?T r1, Log s1]"
  have eq: "pre @ Call (DeleteBucketCommand b') rp # post
          = ?A @ Call (DeleteBucketCommand bucketName) r2 # rest2"
    using occ t r by simp
  have A: "\<forall>e \<in> set ?A. \<not> is_DeleteBucket e" using tp' by simp
  have pre: "pre = ?A"
    by (rule split_unique [OF eq _ A rest2]) simp
  have lp: "listings pre = listings tp" using pre by (simp add: listings_append)
  from thr have ne: "listings pre \<noteq> []" using lp by auto
  from threaded_last [OF thr] obtain tok resp where
    last: "last (listings pre) = (ListObjectsV2Command bucketName tok, Resolves resp)"
    and falsy: "\<not> truthy (IsTruncated resp)"
    using lp by auto
  from listings_last_decomp [OF ne] last obtain a mid where
    "pre = a @ Call (ListObjectsV2Command bucketName tok) (Resolves resp) # mid" "listings mid = []"
    by auto
  with falsy show ?thesis by blast
qed

theorem C2_bucket_deletion_after_final_page_witness:
  "deleteResources 2 demo_env (Some ''i-1'') ''B'' (Some ''q-url'') [] = Some (Inr (), [] @
     ((Log ''Deleting resources...'' # demo_purge_trace ''B''
        @ [Call (TerminateInstancesCommand [Some ''i-1'']) (Resolves empty_response),
           Log ''EC2 instance i-1 termination initiated''])
      @ Call (DeleteBucketCommand ''B'') (Resolves empty_response)
      # [Log ''S3 bucket B deleted'',
         Call (DeleteQueueCommand (Some ''q-url'')) (Resolves empty_response),
         Log ''SQS queue q-url deleted'']))
   \<and> (\<exists>a tok resp mid.
         Log ''Deleting resources...'' # demo_purge_trace ''B''
           @ [Call (TerminateInstancesCommand [Some ''i-1'']) (Resolves empty_response),
              Log ''EC2 instance i-1 termination initiated'']
          = a @ Call (ListObjectsV2Command ''B'' tok) (Resolves resp) # mid
         \<and> \<not> truthy (IsTruncated resp) \<and> listings mid = [])"
proof -
  have run: "deleteResources 2 demo_env (Some ''i-1'') ''B'' (Some ''q-url'') [] = Some (Inr (), [] @
     ((Log ''Deleting resources...'' # demo_purge_trace ''B''
        @ [Call (TerminateInstancesCommand [Some ''i-1'']) (Resolves empty_response),
           Log ''EC2 instance i-1 termination initiated''])
      @ Call (DeleteBucketCommand ''B'') (Resolves empty_response)
      # [Log ''S3 bucket B deleted'',
         Call (DeleteQueueCommand (Some ''q-url'')) (Resolves empty_response),
         Log ''SQS queue q-url deleted'']))"
    by (simp add: deleteResources_def io_defs deleteContents_def truthy_def demo_env_def demo_messages_def
        demo_purge_trace_def demo_page1_def demo_page2_def empty_response_def js_string_def
        numeral_2_eq_2)
  from C2_bucket_deletion_after_final_page [OF run refl] run show ?thesis by blast
qed

text \<open>
  C3, as claimed: a delete-by-receipt-handle call is issued if and only if the receive
  call returned at least one message. This fails: the receive call below returns a
  message, the message has no attributes, and the routine throws while reading its
  title, before any delete call.
\<close>

theorem C3_counterexample:
  "first_received untitled_env (Some ''q'') [] = Some untitled_message
   \<and> receiveSQSMessage untitled_env (Some ''q'') [] = Some (Inl TypeError,
        [Log ''Receiving message from SQS...'',
         Call (ReceiveMessageCommand (Some ''q'') 1 [''All''])
           (Resolves (empty_response\<lparr>Messages := Some [untitled_message]\<rparr>))])"
  by (simp add: first_received_def receiveSQSMessage_def io_defs untitled_env_def
      untitled_message_def empty_response_def)

text \<open>
  C3, amended: in \<^verbatim>\<open>receiveSQSMessage\<close> a delete-by-receipt-handle call is issued if and
  only if the receive call returned at least one message and the first one carries a
  Title attribute; a delete call that is issued names the queue of the receive call and
  the receipt handle of that first message.
\<close>

theorem C3_delete_iff_titled_message:
  assumes "receiveSQSMessage env queueUrl h = Some (res, h @ t)"
  shows "((\<exists>qu rh rp. Call (DeleteMessageCommand qu rh) rp \<in> set t)
           \<longleftrightarrow> (\<exists>msg. first_received env queueUrl h = Some msg \<and> has_Title msg))
       \<and> (\<forall>qu rh rp. Call (DeleteMessageCommand qu rh) rp \<in> set t \<longrightarrow>
             qu = queueUrl
             \<and> (\<exists>msg. first_received env queueUrl h = Some msg \<and> rh = ReceiptHandle msg))"
  using assms
  apply (auto simp: receiveSQSMessage_def io_defs calls_of_append first_received_def has_Title_def
      split: reply.splits option.splits list.splits)
   apply fastforce+
  done

theorem C3_delete_iff_titled_message_witness:
  "receiveSQSMessage demo_env (Some ''q'') [] = Some (Inr (),
        [] @ [Log ''Receiving message from SQS...'',
         Call (ReceiveMessageCommand (Some ''q'') 1 [''All''])
           (Resolves demo_messages),
         Log ''Message title: test message'', Log ''Message body: This is a test message'',
         Call (DeleteMessageCommand (Some ''q'') (Some ''rh-1'')) (Resolves empty_response)])
   \<and> first_received demo_env (Some ''q'') [] = Some demo_message \<and> has_Title demo_message
   \<and> ReceiptHandle demo_message = Some ''rh-1''"
  using C3_delete_iff_titled_message [of demo_env "Some ''q''" "[]" "Inr ()"]
  by (simp add: first_received_def receiveSQSMessage_def io_defs demo_env_def demo_messages_def demo_message_def
      empty_response_def has_Title_def js_string_def)

text \<open>
  C4, as claimed: with the constants equated the two scripts issue the same provider
  calls and behave the same for every sequence of provider responses. This fails:
  \<^verbatim>\<open>src/p1.js\<close> reads the listings with optional chaining and
  \<^verbatim>\<open>src/unnamed/part_000\<close> does not. Below the instance listing has no
  \<^verbatim>\<open>Reservations\<close>: the first script goes on to five more provider calls, the second
  throws a TypeError right after the listing call.
\<close>

theorem C4_counterexample:
  "main_p1 0 bare_env ImageId_p1 [] = Some (Inr (), bare_prefix @
     [Call ListBucketsCommand (Resolves empty_response),
      Log ''S3 Buckets:'',
      Call ListQueuesCommand (Resolves empty_response),
      Log ''SQS Queues:'',
      Log ''Uploading file to S3...'',
      Call (PutObjectCommand ''my-test-bucket-7'' ''CSE546test.txt'' []) (Resolves empty_response),
      Log ''File uploaded to S3'',
      Log ''Sending message to SQS...'',
      Call (SendMessageCommand None ''This is a test message''
        [(''Title'', \<lparr>DataType = Some ''String'', StringValue = Some ''test message''\<rparr>)])
        (Resolves empty_response),
      Log ''Message sent to SQS'',
      Call (GetQueueAttributesCommand None [''ApproximateNumberOfMessages''])
        (Resolves empty_response),
      LogError ''An error occurred:'' TypeError])
   \<and> main_part_000 0 bare_env ImageId_p1 [] = Some (Inr (), bare_prefix @
     [LogError ''An error occurred:'' TypeError])
   \<and> map_option (calls_of \<circ> snd) (main_p1 0 bare_env ImageId_p1 [])
       \<noteq> map_option (calls_of \<circ> snd) (main_part_000 0 bare_env ImageId_p1 [])"
  by (simp add: routine_defs io_defs demo_run_def empty_response_def bare_env_def bare_prefix_def
      show_nat_7)

text \<open>
  C4, amended: with the image identifier equated, and for every provider whose instance
  listings carry \<^verbatim>\<open>Reservations\<close> with a \<^verbatim>\<open>State\<close> on each instance and whose bucket
  and queue listings carry \<^verbatim>\<open>Buckets\<close> and \<^verbatim>\<open>QueueUrls\<close>, the two scripts issue the same
  sequence of provider calls and get the same replies, and one settles exactly when the
  other does. (What they print for the instances, and the last pause, differ.)
\<close>

theorem C4_same_provider_calls:
  assumes "listings_complete env"
  shows "map_option (calls_of \<circ> snd) (main_p1 fuel env imageId h)
       = map_option (calls_of \<circ> snd) (main_part_000 fuel env imageId h)"
proof -
  have sc: "same_calls (main_p1 fuel env imageId) (main_part_000 fuel env imageId)"
    unfolding main_p1_def main_part_000_def
    by (intro same_calls_try_catch same_calls_main_body same_calls_listResources assms)
  show ?thesis
  proof (cases "main_p1 fuel env imageId h")
    case None
    from same_callsD_None [OF sc refl None] None show ?thesis by simp
  next
    case (Some p)
    obtain r t where "p = (r, t)" by (cases p)
    with same_callsD_Some [OF sc refl, of h r t] Some show ?thesis by auto
  qed
qed

theorem C4_same_provider_calls_witness:
  "listings_complete demo_env
   \<and> main_p1 2 demo_env ImageId_p1 [] = Some (Inr (), demo_setup_trace @ demo_teardown_trace)
   \<and> map_option (calls_of \<circ> snd) (main_part_000 2 demo_env ImageId_p1 [])
       = Some (calls_of (demo_setup_trace @ demo_teardown_trace))"
proof -
  have 1: "listings_complete demo_env"
    by (auto simp: listings_complete_def demo_env_def demo_reservations_def demo_buckets_def
        demo_queues_def empty_response_def)
  from C4_same_provider_calls [OF 1, of 2 ImageId_p1 "[]"] demo_run 1
  show ?thesis by simp
qed

text \<open>
  C5. Whichever provider call is rejected during a run of \<^verbatim>\<open>main\<close> (of either script),
  the rejected call is the last provider call of the run: the only event after it is the
  single line the \<^verbatim>\<open>catch\<close> handler logs, with the generic message and the rejection.
  No call and no error line precedes it that was rejected or logged as an error, so
  nothing is rolled back or cleaned up, and \<^verbatim>\<open>main\<close> itself returns normally. The
  rejected call may be an object deletion inside the purge loop, as in the witness.
\<close>

theorem C5_failure_surfaces_once:
  assumes run: "main_p1 fuel env imageId h = Some (res, h @ t)
              \<or> main_part_000 fuel env imageId h = Some (res, h @ t)"
      and rej: "Call c (Rejects e) \<in> set t"
  shows "res = Inr ()
       \<and> (\<exists>pre. t = pre @ [Call c (Rejects e), LogError ''An error occurred:'' (Rejected e)]
               \<and> quiet pre)"
  using run
proof
  assume "main_p1 fuel env imageId h = Some (res, h @ t)"
  then show ?thesis
    unfolding main_p1_def
    by (rule try_catch_surfaces [OF surfaces_main_body [OF surfaces_listResources_p1] _ rej])
next
  assume "main_part_000 fuel env imageId h = Some (res, h @ t)"
  then show ?thesis
    unfolding main_part_000_def
    by (rule try_catch_surfaces [OF surfaces_main_body [OF surfaces_listResources_part_000] _ rej])
qed

theorem C5_failure_surfaces_once_witness:
  "main_p1 1 failing_env ImageId_p1 [] = Some (Inr (), [] @ ((demo_setup_trace @
      [Log ''Deleting resources...'',
       Call (ListObjectsV2Command ''my-test-bucket-7'' None) (Resolves demo_page1)])
     @ [Call (DeleteObjectCommand ''my-test-bucket-7'' (Some ''k1'')) (Rejects ''AccessDenied''),
        LogError ''An error occurred:'' (Rejected ''AccessDenied'')]))
   \<and> quiet (demo_setup_trace @
      [Log ''Deleting resources...'',
       Call (ListObjectsV2Command ''my-test-bucket-7'' None) (Resolves demo_page1)])"
proof -
  let ?t = "(demo_setup_trace @
      [Log ''Deleting resources...'',
       Call (ListObjectsV2Command ''my-test-bucket-7'' None) (Resolves demo_page1)])
     @ [Call (DeleteObjectCommand ''my-test-bucket-7'' (Some ''k1'')) (Rejects ''AccessDenied''),
        LogError ''An error occurred:'' (Rejected ''AccessDenied'')]"
  have "Call (DeleteObjectCommand ''my-test-bucket-7'' (Some ''k1'')) (Rejects ''AccessDenied'') \<in> set ?t"
    by simp
  from C5_failure_surfaces_once [OF disjI1 [OF failing_run] this] failing_run
  show ?thesis by simp
qed




text \<open>
  C7. When the receive call resolves with no messages (\<^verbatim>\<open>Messages\<close> undefined or an
  empty array), \<^verbatim>\<open>receiveSQSMessage\<close> returns normally, and all it does after the
  receive call is log that the queue is empty: no further provider call.
\<close>

theorem C7_receive_empty:
  assumes "provider env (calls_of h) (ReceiveMessageCommand queueUrl 1 [''All'']) = Resolves response"
      and "Messages response = None \<or> Messages response = Some []"
  shows "receiveSQSMessage env queueUrl h = Some (Inr (),
           h @ [Log ''Receiving message from SQS...'',
                Call (ReceiveMessageCommand queueUrl 1 [''All'']) (Resolves response),
                Log ''No messages in the queue''])"
  using assms by (auto simp: receiveSQSMessage_def io_defs calls_of_append)

theorem C7_receive_empty_witness:
  "provider blank_env (calls_of []) (ReceiveMessageCommand (Some ''q'') 1 [''All''])
     = Resolves empty_response
   \<and> Messages empty_response = None
   \<and> receiveSQSMessage blank_env (Some ''q'') [] = Some (Inr (),
        [Log ''Receiving message from SQS...'',
         Call (ReceiveMessageCommand (Some ''q'') 1 [''All'']) (Resolves empty_response),
         Log ''No messages in the queue''])"
  using C7_receive_empty [of blank_env "[]" "Some ''q''" empty_response]
  by (simp add: blank_env_def empty_response_def)

text \<open>
  C8. When the first listing response reports no contents and truncation=false, the purge
  loop performs that one listing call and exits normally, with no object-delete call;
  the next event of \<^verbatim>\<open>deleteResources\<close> is the instance termination call and, once
  that call resolves, the bucket deletion call follows after one log line.
\<close>

theorem C8_empty_bucket:
  assumes "provider env (calls_of h) (ListObjectsV2Command bucketName None) = Resolves resp"
      and "Contents resp = None \<or> Contents resp = Some []"
      and "IsTruncated resp = Some False"
  shows "purgeLoop (Suc fuel) env bucketName (Some True) None (h @ [Log ''Deleting resources...''])
           = Some (Inr (), h @ [Log ''Deleting resources...'',
                Call (ListObjectsV2Command bucketName None) (Resolves resp)])
       \<and> (\<exists>res rest. deleteResources (Suc fuel) env instanceId bucketName queueUrl h
             = Some (res, h @ [Log ''Deleting resources...'',
                  Call (ListObjectsV2Command bucketName None) (Resolves resp),
                  Call (TerminateInstancesCommand [instanceId])
                    (provider env (calls_of h @ [(ListObjectsV2Command bucketName None, Resolves resp)])
                       (TerminateInstancesCommand [instanceId]))] @ rest)
            \<and> (\<forall>r1. provider env (calls_of h @ [(ListObjectsV2Command bucketName None, Resolves resp)])
                       (TerminateInstancesCommand [instanceId]) = Resolves r1 \<longrightarrow>
                 (\<exists>rp rest'. rest = [Log (''EC2 instance '' @ js_string instanceId @ '' termination initiated''),
                     Call (DeleteBucketCommand bucketName) rp] @ rest')))"
  using assms
  by (auto simp: deleteResources_def io_defs deleteContents_def truthy_def calls_of_append
      purgeLoop_falsy split: reply.splits)

theorem C8_empty_bucket_witness:
  "provider empty_bucket_env (calls_of []) (ListObjectsV2Command ''B'' None) = Resolves empty_page
   \<and> Contents empty_page = None \<and> IsTruncated empty_page = Some False
   \<and> purgeLoop 1 empty_bucket_env ''B'' (Some True) None [Log ''Deleting resources...'']
        = Some (Inr (), [Log ''Deleting resources...'',
             Call (ListObjectsV2Command ''B'' None) (Resolves empty_page)])
   \<and> deleteResources 1 empty_bucket_env (Some ''i'') ''B'' (Some ''q'') [] = Some (Inr (),
        [Log ''Deleting resources...'',
         Call (ListObjectsV2Command ''B'' None) (Resolves empty_page),
         Call (TerminateInstancesCommand [Some ''i'']) (Resolves empty_page),
         Log ''EC2 instance i termination initiated'',
         Call (DeleteBucketCommand ''B'') (Resolves empty_page),
         Log ''S3 bucket B deleted'',
         Call (DeleteQueueCommand (Some ''q'')) (Resolves empty_page),
         Log ''SQS queue q deleted''])"
  using C8_empty_bucket [of empty_bucket_env "[]" "''B''" empty_page 0 "Some ''i''" "Some ''q''"]
  by (simp add: deleteResources_def io_defs deleteContents_def truthy_def empty_bucket_env_def
      empty_page_def empty_response_def js_string_def)

text \<open>
  C9. \<^verbatim>\<open>receiveSQSMessage\<close> reads \<^verbatim>\<open>message.MessageAttributes.Title.StringValue\<close> of the
  first returned message with no guard. When that message has no attributes or no Title
  attribute, the routine throws right after the receive call, so no delete call is
  issued; and whenever the routine returns normally after a message was returned, the
  message carries a Title. The receive call asks for at most one message
  (\<^verbatim>\<open>MaxNumberOfMessages: 1\<close>); of a response that honours this, every message carries
  a Title.
\<close>

theorem C9_receive_requires_Title:
  assumes "provider env (calls_of h) (ReceiveMessageCommand queueUrl 1 [''All'']) = Resolves response"
      and "Messages response = Some (msg # rest)"
  shows "(\<not> has_Title msg \<longrightarrow>
            receiveSQSMessage env queueUrl h = Some (Inl TypeError,
              h @ [Log ''Receiving message from SQS...'',
                   Call (ReceiveMessageCommand queueUrl 1 [''All'']) (Resolves response)]))
       \<and> (\<forall>h'. receiveSQSMessage env queueUrl h = Some (Inr (), h') \<longrightarrow>
             has_Title msg
             \<and> (length (msg # rest) \<le> 1 \<longrightarrow> (\<forall>m \<in> set (msg # rest). has_Title m)))"
  using assms
  by (auto simp: receiveSQSMessage_def io_defs calls_of_append has_Title_def
      split: reply.splits option.splits list.splits)

theorem C9_receive_requires_Title_witness:
  "\<not> has_Title untitled_message
   \<and> receiveSQSMessage untitled_env (Some ''q'') [] = Some (Inl TypeError,
        [Log ''Receiving message from SQS...'',
         Call (ReceiveMessageCommand (Some ''q'') 1 [''All''])
           (Resolves (empty_response\<lparr>Messages := Some [untitled_message]\<rparr>))])
   \<and> receiveSQSMessage demo_env (Some ''q'') [] = Some (Inr (),
        [Log ''Receiving message from SQS...'',
         Call (ReceiveMessageCommand (Some ''q'') 1 [''All''])
           (Resolves demo_messages),
         Log ''Message title: test message'', Log ''Message body: This is a test message'',
         Call (DeleteMessageCommand (Some ''q'') (Some ''rh-1'')) (Resolves empty_response)])
   \<and> has_Title demo_message"
  using C9_receive_requires_Title [of untitled_env "[]" "Some ''q''"
          "empty_response\<lparr>Messages := Some [untitled_message]\<rparr>" untitled_message "[]"]
        C9_receive_requires_Title [of demo_env "[]" "Some ''q''"
          demo_messages demo_message "[]"]
  by (simp add: receiveSQSMessage_def io_defs demo_env_def demo_messages_def demo_message_def untitled_env_def
      untitled_message_def empty_response_def has_Title_def js_string_def)

text \<open>
  C10. The purge loop tests the truthiness of the truncation flag. First conjunct: an
  iteration whose listing response has no truncation flag, and whose object deletions
  succeed, is the last one: the loop returns normally right after it. Second conjunct:
  when from some number of provider calls on every listing response has a truncation
  flag that is false or absent, the loop terminates: some number of iterations is
  enough for it to return or throw.
\<close>

theorem C10_truthiness_exit:
  "(\<forall>resp h'. provider env (calls_of h) (ListObjectsV2Command bucketName tok) = Resolves resp
        \<longrightarrow> IsTruncated resp = None
        \<longrightarrow> deleteContents env bucketName (Contents resp)
              (h @ [Call (ListObjectsV2Command bucketName tok) (Resolves resp)]) = Some (Inr (), h')
        \<longrightarrow> purgeLoop (Suc fuel) env bucketName (Some True) tok h = Some (Inr (), h'))
   \<and> ((\<exists>N. \<forall>cs tok' resp. N \<le> length cs \<longrightarrow>
           provider env cs (ListObjectsV2Command bucketName tok') = Resolves resp \<longrightarrow>
           IsTruncated resp = Some False \<or> IsTruncated resp = None)
        \<longrightarrow> (\<exists>fuel' res h'. purgeLoop fuel' env bucketName (Some True) None h = Some (res, h')))"
proof (intro conjI allI impI)
  fix resp h'
  assume "provider env (calls_of h) (ListObjectsV2Command bucketName tok) = Resolves resp"
    "IsTruncated resp = None"
    "deleteContents env bucketName (Contents resp)
       (h @ [Call (ListObjectsV2Command bucketName tok) (Resolves resp)]) = Some (Inr (), h')"
  then show "purgeLoop (Suc fuel) env bucketName (Some True) tok h = Some (Inr (), h')"
    by (simp add: truthy_def bind_io_def then_io_def send_def purgeLoop_falsy return_io_def)
next
  assume "\<exists>N. \<forall>cs tok' resp. N \<le> length cs \<longrightarrow>
           provider env cs (ListObjectsV2Command bucketName tok') = Resolves resp \<longrightarrow>
           IsTruncated resp = Some False \<or> IsTruncated resp = None"
  then obtain N where N: "\<forall>cs tok' resp. N \<le> length cs \<longrightarrow>
           provider env cs (ListObjectsV2Command bucketName tok') = Resolves resp \<longrightarrow>
           IsTruncated resp = Some False \<or> IsTruncated resp = None"
    by blast
  have "\<forall>cs tok' resp. N \<le> length cs \<longrightarrow>
           provider env cs (ListObjectsV2Command bucketName tok') = Resolves resp \<longrightarrow>
           \<not> truthy (IsTruncated resp)"
  proof (intro allI impI)
    fix cs tok' resp
    assume "N \<le> length cs" "provider env cs (ListObjectsV2Command bucketName tok') = Resolves resp"
    with N have "IsTruncated resp = Some False \<or> IsTruncated resp = None" by auto
    then show "\<not> truthy (IsTruncated resp)" by (auto simp: truthy_def)
  qed
  from purgeLoop_terminates [OF this]
  show "\<exists>fuel' res h'. purgeLoop fuel' env bucketName (Some True) None h = Some (res, h')" .
qed

theorem C10_truthiness_exit_witness:
  "purgeLoop 1 blank_env ''B'' (Some True) None [] = Some (Inr (),
      [Call (ListObjectsV2Command ''B'' None) (Resolves empty_response)])
   \<and> IsTruncated empty_response = None
   \<and> (\<exists>fuel' res h'. purgeLoop fuel' blank_env ''B'' (Some True) None [] = Some (res, h'))"
proof -
  have a: "provider blank_env (calls_of []) (ListObjectsV2Command ''B'' None) = Resolves empty_response"
    by (simp add: blank_env_def)
  have b: "IsTruncated empty_response = None" by (simp add: empty_response_def)
  have c: "deleteContents blank_env ''B'' (Contents empty_response)
      ([] @ [Call (ListObjectsV2Command ''B'' None) (Resolves empty_response)])
      = Some (Inr (), [Call (ListObjectsV2Command ''B'' None) (Resolves empty_response)])"
    by (simp add: deleteContents_def return_io_def empty_response_def)
  have d: "\<exists>N. \<forall>cs tok' resp. N \<le> length cs \<longrightarrow>
           provider blank_env cs (ListObjectsV2Command ''B'' tok') = Resolves resp \<longrightarrow>
           IsTruncated resp = Some False \<or> IsTruncated resp = None"
    by (auto simp: blank_env_def empty_response_def)
  from C10_truthiness_exit [of blank_env "[]" "''B''" None 0 ] a b c d
  show ?thesis by (metis One_nat_def)
qed


end
